theory Spec2Isabelle
  imports Main "HOL-Library.Sublist" "HOL-Library.Monad_Syntax"
begin

section \<open>Bytes, strings and numbers\<close>

text \<open>
  A byte of an \<^verbatim>\<open>ArrayBuffer\<close> or \<^verbatim>\<open>Uint8Array\<close> is a \<^typ>\<open>char\<close> (eight bits), a
  buffer is a list of them. A JavaScript string is represented by the bytes of its code
  points in UTF-8, an unpaired surrogate (U+D800 to U+DFFF, which a JavaScript string may
  hold and well-formed Unicode text may not) by the three bytes \<open>ED A0..BF 80..BF\<close> the
  same scheme gives it. \<^verbatim>\<open>TextEncoder\<close> writes U+FFFD for an unpaired surrogate, and
  \<^verbatim>\<open>TextDecoder\<close> returns U+FFFD for every run of bytes that is not well-formed UTF-8, so
  the strings the decoder returns hold no unpaired surrogate.
  The separators the program looks for (\<^verbatim>\<open>/\<close>, space, \<^verbatim>\<open>=\<close>, newline, NUL) are ASCII, and an
  ASCII byte of a UTF-8 text is always a whole character, so splitting and prefix tests on the
  bytes are those on the characters.

  A JavaScript number is an \<^typ>\<open>int option\<close>, \<open>None\<close> standing for NaN; every number
  the program computes from a header field has at most twelve digits, far below the \<open>2^53\<close>
  where doubles stop being exact. An exception is the value \<open>None\<close> of an option type: the
  only exception the program can raise on the inputs modelled is the \<^verbatim>\<open>RangeError\<close> of a
  typed-array view that does not fit its buffer.
\<close>

type_synonym bytes = "char list"

type_synonym number = "int option"

datatype jsval = Undefined | Str string | Num number

type_synonym object = "string \<rightharpoonup> jsval"

text \<open>\<^verbatim>\<open>new Uint8Array(buffer, byteOffset, length)\<close>: the view's bytes, or a RangeError
  (\<open>None\<close>) when the offset or the length is negative or the view ends past the buffer. A
  length of NaN converts to 0.\<close>

definition Uint8Array :: "bytes \<Rightarrow> int \<Rightarrow> number \<Rightarrow> bytes option" where
  "Uint8Array buffer byteOffset len =
     (let n = (case len of None \<Rightarrow> 0 | Some k \<Rightarrow> k) in
      if byteOffset < 0 \<or> n < 0 \<or> int (length buffer) < byteOffset + n then None
      else Some (take (nat n) (drop (nat byteOffset) buffer)))"

text \<open>The byte order mark U+FEFF and the replacement character U+FFFD, in UTF-8.\<close>

definition BOM :: string where
  "BOM = [CHR 0xEF, CHR 0xBB, CHR 0xBF]"

definition REPLACEMENT :: string where
  "REPLACEMENT = [CHR 0xEF, CHR 0xBF, CHR 0xBD]"

text \<open>The UTF-8 decoder of the Encoding Standard, byte by byte, with its variables: the
  bytes \<open>seen\<close> of the sequence being read, the number of bytes still \<open>needed\<close> to finish
  it, and the bounds \<open>lower\<close> and \<open>upper\<close> on the next byte. A finished sequence gives its
  code point, whose UTF-8 bytes are the bytes seen. A byte that cannot start a sequence
  gives U+FFFD; a byte that cannot continue the sequence gives U+FFFD for the bytes seen and
  is read again as a first byte; so does the end of the input inside a sequence.\<close>

fun utf8_decode :: "bytes \<Rightarrow> nat \<Rightarrow> nat \<Rightarrow> nat \<Rightarrow> bytes \<Rightarrow> string" where
  "utf8_decode seen needed lower upper [] = (if needed \<noteq> 0 then REPLACEMENT else [])"
| "utf8_decode seen needed lower upper (b # bs) =
     (let n = (of_char b :: nat) in
      if needed = 0 then
        (if n \<le> 0x7F then b # utf8_decode [] 0 0x80 0xBF bs
         else if 0xC2 \<le> n \<and> n \<le> 0xDF then utf8_decode [b] 1 0x80 0xBF bs
         else if 0xE0 \<le> n \<and> n \<le> 0xEF then
           utf8_decode [b] 2 (if n = 0xE0 then 0xA0 else 0x80) (if n = 0xED then 0x9F else 0xBF) bs
         else if 0xF0 \<le> n \<and> n \<le> 0xF4 then
           utf8_decode [b] 3 (if n = 0xF0 then 0x90 else 0x80) (if n = 0xF4 then 0x8F else 0xBF) bs
         else REPLACEMENT @ utf8_decode [] 0 0x80 0xBF bs)
      else if n < lower \<or> upper < n then REPLACEMENT @ utf8_decode [] 0 0x80 0xBF (b # bs)
      else if needed = 1 then seen @ [b] @ utf8_decode [] 0 0x80 0xBF bs
      else utf8_decode (seen @ [b]) (needed - 1) 0x80 0xBF bs)"

declare utf8_decode.simps(2) [simp del]

text \<open>\<^verbatim>\<open>new TextDecoder().decode(view)\<close>: the default decoder (UTF-8, not fatal, the byte
  order mark not ignored) drops a leading byte order mark and decodes the rest.\<close>

definition TextDecoder_decode :: "bytes \<Rightarrow> string" where
  "TextDecoder_decode view =
     utf8_decode [] 0 0x80 0xBF (if prefix BOM view then drop 3 view else view)"

text \<open>\<^verbatim>\<open>String.fromCodePoint(b)\<close> for a byte \<open>b\<close>: the character U+00\<open>b\<close>, one byte of UTF-8
  below 128 and two from there on.\<close>

definition fromCodePoint :: "char \<Rightarrow> string" where
  "fromCodePoint b =
     (let n = (of_char b :: nat) in
      if n < 128 then [b] else [char_of (192 + n div 64), char_of (128 + n mod 64)])"

text \<open>The white space and line terminators of ECMAScript, in UTF-8: TAB, LF, VT, FF, CR,
  SP, U+00A0, U+1680, U+2000 to U+200A, U+2028, U+2029, U+202F, U+205F, U+3000, U+FEFF.\<close>

definition WhiteSpace :: "string list" where
  "WhiteSpace =
     [[CHR 0x09], [CHR 0x0A], [CHR 0x0B], [CHR 0x0C], [CHR 0x0D], [CHR 0x20],
      [CHR 0xC2, CHR 0xA0], [CHR 0xE1, CHR 0x9A, CHR 0x80],
      [CHR 0xE2, CHR 0x80, CHR 0x80], [CHR 0xE2, CHR 0x80, CHR 0x81],
      [CHR 0xE2, CHR 0x80, CHR 0x82], [CHR 0xE2, CHR 0x80, CHR 0x83],
      [CHR 0xE2, CHR 0x80, CHR 0x84], [CHR 0xE2, CHR 0x80, CHR 0x85],
      [CHR 0xE2, CHR 0x80, CHR 0x86], [CHR 0xE2, CHR 0x80, CHR 0x87],
      [CHR 0xE2, CHR 0x80, CHR 0x88], [CHR 0xE2, CHR 0x80, CHR 0x89],
      [CHR 0xE2, CHR 0x80, CHR 0x8A],
      [CHR 0xE2, CHR 0x80, CHR 0xA8], [CHR 0xE2, CHR 0x80, CHR 0xA9],
      [CHR 0xE2, CHR 0x80, CHR 0xAF], [CHR 0xE2, CHR 0x81, CHR 0x9F],
      [CHR 0xE3, CHR 0x80, CHR 0x80], [CHR 0xEF, CHR 0xBB, CHR 0xBF]]"

text \<open>The number of bytes of the first character of \<open>s\<close> when it is one of \<open>ws\<close>, else 0.\<close>

definition leading :: "string list \<Rightarrow> string \<Rightarrow> nat" where
  "leading ws s = (case find (\<lambda>w. w \<noteq> [] \<and> prefix w s) ws of None \<Rightarrow> 0 | Some w \<Rightarrow> length w)"

function strip :: "string list \<Rightarrow> string \<Rightarrow> string" where
  "strip ws s = (if leading ws s = 0 then s else strip ws (drop (leading ws s) s))"
  by pat_completeness auto
termination
proof (relation "measure (\<lambda>(ws, s). length s)")
  show "wf (measure (\<lambda>(ws :: string list, s :: string). length s))"
    by simp
next
  fix ws :: "string list" and s :: string
  assume pos: "leading ws s \<noteq> 0"
  then obtain w where "find (\<lambda>w. w \<noteq> [] \<and> prefix w s) ws = Some w"
    by (auto simp: leading_def split: option.splits)
  then have "w \<noteq> [] \<and> prefix w s"
    by (auto simp: find_Some_iff)
  then have "s \<noteq> []"
    by auto
  with pos show "((ws, drop (leading ws s) s), (ws, s)) \<in> measure (\<lambda>(ws, s). length s)"
    by simp
qed

definition trimStart :: "string \<Rightarrow> string" where
  "trimStart s = strip WhiteSpace s"

definition trimEnd :: "string \<Rightarrow> string" where
  "trimEnd s = rev (strip (map rev WhiteSpace) (rev s))"

definition trim :: "string \<Rightarrow> string" where
  "trim s = trimEnd (trimStart s)"

text \<open>\<^verbatim>\<open>str.split(sep)\<close> for a one-character separator: at least one piece.\<close>

fun split :: "char \<Rightarrow> string \<Rightarrow> string list" where
  "split sep [] = [[]]"
| "split sep (c # cs) =
     (let r = split sep cs in if c = sep then [] # r else (c # hd r) # tl r)"

text \<open>The value of a digit in radix up to 36, as \<^verbatim>\<open>parseInt\<close> reads it.\<close>

definition digitValue :: "char \<Rightarrow> nat option" where
  "digitValue c =
     (let n = (of_char c :: nat) in
      if 48 \<le> n \<and> n \<le> 57 then Some (n - 48)
      else if 97 \<le> n \<and> n \<le> 122 then Some (n - 87)
      else if 65 \<le> n \<and> n \<le> 90 then Some (n - 55)
      else None)"

definition isDigit :: "nat \<Rightarrow> char \<Rightarrow> bool" where
  "isDigit R c = (case digitValue c of None \<Rightarrow> False | Some d \<Rightarrow> d < R)"

definition digitsValue :: "nat \<Rightarrow> string \<Rightarrow> nat" where
  "digitsValue R Z = foldl (\<lambda>a c. a * R + (case digitValue c of None \<Rightarrow> 0 | Some d \<Rightarrow> d)) 0 Z"

text \<open>\<^verbatim>\<open>Number.parseInt(string, radix)\<close>, step by step as ECMA-262 defines it; radix 0
  stands for an omitted radix. The result \<open>-0\<close> is the number 0 here.\<close>

definition parseInt :: "string \<Rightarrow> nat \<Rightarrow> number" where
  "parseInt string radix =
     (let S = trimStart string;
          sign = (if S \<noteq> [] \<and> hd S = CHR ''-'' then - 1 else 1 :: int);
          S = (if S \<noteq> [] \<and> (hd S = CHR ''+'' \<or> hd S = CHR ''-'') then tl S else S);
          stripPrefix = (radix = 0 \<or> radix = 16);
          R = (if radix = 0 then 10 else radix)
      in if radix \<noteq> 0 \<and> (radix < 2 \<or> 36 < radix) then None
         else
           let hex = (stripPrefix \<and> (take 2 S = ''0x'' \<or> take 2 S = ''0X''));
               S = (if hex then drop 2 S else S);
               R = (if hex then 16 else R);
               Z = takeWhile (isDigit R) S
           in if Z = [] then None else Some (sign * int (digitsValue R Z)))"

text \<open>\<^verbatim>\<open>Math.trunc(a / b)\<close> and \<^verbatim>\<open>a % b\<close> on integers with \<open>b > 0\<close>: the quotient is
  rounded towards zero and the remainder has the sign of \<open>a\<close>.\<close>

definition trunc_div :: "int \<Rightarrow> int \<Rightarrow> int" where
  "trunc_div a b = sgn a * (\<bar>a\<bar> div b)"

definition rem :: "int \<Rightarrow> int \<Rightarrow> int" where
  "rem a b = a - b * trunc_div a b"

section \<open>The decoder\<close>

definition tarItemTypes :: "(string \<times> string) list" where
  "tarItemTypes =
     [(''0'', ''file''), (''1'', ''hardLink''), (''2'', ''symbolicLink''),
      (''3'', ''characterDevice''), (''4'', ''blockDevice''), (''5'', ''directory''),
      (''6'', ''fifo''), (''7'', ''contiguousFile''),
      (''g'', ''globalExtendedHeader''), (''x'', ''extendedHeader''),
      (''D'', ''gnuDirectory''), (''I'', ''gnuInodeMetadata''), (''K'', ''gnuLongLinkName''),
      (''L'', ''gnuLongFileName''), (''N'', ''gnuOldLongFileName''),
      (''M'', ''gnuMultiVolume''), (''S'', ''gnuSparseFile''), (''E'', ''gnuExtendedSparse''),
      (''A'', ''solarisAcl''), (''V'', ''solarisVolumeLabel''),
      (''X'', ''solarisOldExtendedHeader'')]"

definition tarItemTypeMap :: "string \<rightharpoonup> string" where
  "tarItemTypeMap = map_of tarItemTypes"

definition readString :: "bytes \<Rightarrow> int \<Rightarrow> number \<Rightarrow> string option" where
  "readString buffer offset sz = do {
     view \<leftarrow> Uint8Array buffer offset sz;
     Some (TextDecoder_decode (takeWhile (\<lambda>c. c \<noteq> CHR 0x00) view))
   }"

definition readNumber :: "bytes \<Rightarrow> int \<Rightarrow> nat \<Rightarrow> number option" where
  "readNumber buffer offset sz = do {
     view \<leftarrow> Uint8Array buffer offset (Some (int sz));
     Some (parseInt (concat (map fromCodePoint view)) 8)
   }"

text \<open>\<^verbatim>\<open>_parseExtendedHeaders\<close>. The assignment \<^verbatim>\<open>headers[s[0]] = s[1]\<close> makes or
  overwrites a property of \<^verbatim>\<open>headers\<close>, except for the key \<^verbatim>\<open>__proto__\<close>: there it calls
  the setter \<^verbatim>\<open>headers\<close> inherits, which does nothing with a string or \<^verbatim>\<open>undefined\<close>.\<close>

definition parseExtendedHeaders :: "bytes \<Rightarrow> object" where
  "parseExtendedHeaders data =
     foldl (\<lambda>headers line.
              case split CHR '' '' line of
                _ # kv # _ \<Rightarrow>
                  (let s = split CHR ''='' kv
                   in if hd s = ''__proto__'' then headers
                      else headers(hd s \<mapsto> (case tl s of [] \<Rightarrow> Undefined | v # _ \<Rightarrow> Str v)))
              | _ \<Rightarrow> headers)
       Map.empty (split CHR 0x0A (TextDecoder_decode data))"

text \<open>A decoded entry. \<open>item_data\<close> is \<open>None\<close> both for a record without a \<^verbatim>\<open>data\<close> field
  (the metadata handed to the filter, and every record under \<^verbatim>\<open>metaOnly\<close>) and for one whose
  \<^verbatim>\<open>data\<close> is \<^verbatim>\<open>undefined\<close>.\<close>

record tar_item =
  item_name :: string
  item_type :: string
  item_size :: number
  item_attrs :: object
  item_data :: "bytes option"

record parse_opts =
  filter_fn :: "(tar_item \<Rightarrow> bool) option"
  metaOnly :: bool

text \<open>JavaScript truthiness of a property that may be missing.\<close>

definition truthy :: "jsval option \<Rightarrow> bool" where
  "truthy v =
     (case v of
        Some (Str s) \<Rightarrow> s \<noteq> []
      | Some (Num n) \<Rightarrow> n \<noteq> None \<and> n \<noteq> Some 0
      | _ \<Rightarrow> False)"

text \<open>\<^verbatim>\<open>512 + 512 * Math.trunc(size / 512) + (size % 512 ? 512 : 0)\<close>; NaN for a size of NaN.\<close>

definition seek_of :: "number \<Rightarrow> number" where
  "seek_of sz =
     map_option (\<lambda>s. 512 + 512 * trunc_div s 512 + (if rem s 512 \<noteq> 0 then 512 else 0)) sz"

definition plus_number :: "number \<Rightarrow> number \<Rightarrow> number" where
  "plus_number a b = (case (a, b) of (Some x, Some y) \<Rightarrow> Some (x + y) | _ \<Rightarrow> None)"

text \<open>The body of the loop is long; it is given in the pieces below, each a run of
  consecutive lines of \<^verbatim>\<open>parseTar\<close>, and put together in \<open>parseTar_body\<close>.

  Lines 63 to 68: the name a pending next-entry header carries, \<^verbatim>\<open>path || linkpath\<close>,
  replaces the name read from the header when it is truthy.\<close>

definition override_name :: "object option \<Rightarrow> string \<Rightarrow> string" where
  "override_name nextExtendedHeader name =
     (case nextExtendedHeader of
        None \<Rightarrow> name
      | Some h \<Rightarrow>
          (let longName = (if truthy (h ''path'') then h ''path'' else h ''linkpath'')
           in case longName of
                Some (Str s) \<Rightarrow> if truthy longName then s else name
              | _ \<Rightarrow> name))"

text \<open>Lines 75 and 76: \<^verbatim>\<open>_type = _readString(...) || "0"\<close> and
  \<^verbatim>\<open>type = tarItemTypeMap[_type] || _type\<close>, from the string read at the type byte.\<close>

definition resolve_type :: "string \<Rightarrow> string" where
  "resolve_type t =
     (let type_code = (if t = [] then ''0'' else t)
      in case tarItemTypeMap type_code of Some n \<Rightarrow> n | None \<Rightarrow> type_code)"

text \<open>Lines 112 to 120: a prefix that is not empty is put before the name.\<close>

definition join_prefix :: "string \<Rightarrow> string \<Rightarrow> string" where
  "join_prefix pre name =
     (let prefixEndsWithSlash = (pre \<noteq> [] \<and> last pre = CHR ''/'');
          nameStartsWithSlash = (name \<noteq> [] \<and> hd name = CHR ''/'')
      in if prefixEndsWithSlash \<and> nameStartsWithSlash then pre @ tl name
         else if prefixEndsWithSlash \<or> nameStartsWithSlash then pre @ name
         else pre @ ''/'' @ name)"

text \<open>Lines 105 to 122: \<^verbatim>\<open>user\<close>, \<^verbatim>\<open>group\<close> and the name after the USTAR fields are
  read.\<close>

definition ustar_fields :: "bytes \<Rightarrow> int \<Rightarrow> string \<Rightarrow> (jsval \<times> jsval \<times> string) option" where
  "ustar_fields buffer offset name = do {
     ustar \<leftarrow> readString buffer (offset + 257) (Some 6);
     if ustar = ''ustar'' then do {
       user \<leftarrow> readString buffer (offset + 265) (Some 32);
       group \<leftarrow> readString buffer (offset + 297) (Some 32);
       pre \<leftarrow> readString buffer (offset + 345) (Some 155);
       Some (Str user, Str group, if pre \<noteq> [] then join_prefix pre name else name)
     }
     else Some (Undefined, Undefined, name)
   }"

text \<open>Lines 123 to 137: the record \<^verbatim>\<open>meta\<close>; in \<^verbatim>\<open>attrs\<close> a later source wins.\<close>

definition spread :: "object option \<Rightarrow> object" where
  "spread h = (case h of None \<Rightarrow> Map.empty | Some m \<Rightarrow> m)"

definition make_meta ::
  "string \<Rightarrow> string \<Rightarrow> number \<Rightarrow> object option \<Rightarrow> object option
     \<Rightarrow> string \<Rightarrow> number \<Rightarrow> number \<Rightarrow> number \<Rightarrow> jsval \<Rightarrow> jsval \<Rightarrow> tar_item" where
  "make_meta name type sz globalExtendedHeader nextExtendedHeader mode uid gid mtime user grp =
     \<lparr>item_name = name, item_type = type, item_size = sz,
      item_attrs =
        spread globalExtendedHeader ++ spread nextExtendedHeader
        ++ [''mode'' \<mapsto> Str mode, ''uid'' \<mapsto> Num uid, ''gid'' \<mapsto> Num gid,
            ''mtime'' \<mapsto> Num mtime, ''user'' \<mapsto> user, ''group'' \<mapsto> grp],
      item_data = None\<rparr>"

text \<open>What one pass through the body of the loop leaves: the loop is left by
  \<^verbatim>\<open>break\<close>, or goes on with the new values of \<^verbatim>\<open>offset\<close>, \<^verbatim>\<open>nextExtendedHeader\<close>,
  \<^verbatim>\<open>globalExtendedHeader\<close> and \<^verbatim>\<open>files\<close>.\<close>

datatype ctl =
  Break "tar_item list"
| Continue number "object option" "object option" "tar_item list"

text \<open>Lines 138 to 156: the pending header is cleared, then the filter, \<^verbatim>\<open>metaOnly\<close> and
  the payload.\<close>

definition emit ::
  "bytes \<Rightarrow> parse_opts \<Rightarrow> int \<Rightarrow> number \<Rightarrow> number \<Rightarrow> object option \<Rightarrow> tar_item list
     \<Rightarrow> tar_item \<Rightarrow> ctl option" where
  "emit buffer opts offset seek sz globalExtendedHeader files meta =
     (if (case filter_fn opts of None \<Rightarrow> False | Some f \<Rightarrow> \<not> f meta)
      then Some (Continue (plus_number (Some offset) seek) None globalExtendedHeader files)
      else if metaOnly opts
      then Some (Continue (plus_number (Some offset) seek) None globalExtendedHeader
                   (files @ [meta]))
      else do {
        data2 \<leftarrow> (if sz = Some 0 then Some None
                  else map_option Some (Uint8Array buffer (offset + 512) sz));
        Some (Continue (plus_number (Some offset) seek) None globalExtendedHeader
                (files @ [meta\<lparr>item_data := data2\<rparr>]))
      })"

text \<open>Lines 79 to 103: the two kinds of header that only change the state.\<close>

definition extended_header ::
  "bytes \<Rightarrow> int \<Rightarrow> number \<Rightarrow> number \<Rightarrow> string \<Rightarrow> object option \<Rightarrow> tar_item list
     \<Rightarrow> ctl option" where
  "extended_header buffer offset seek sz type globalExtendedHeader files = do {
     view \<leftarrow> Uint8Array buffer (offset + 512) sz;
     let headers = parseExtendedHeaders view;
     if type = ''extendedHeader''
     then Some (Continue (plus_number (Some offset) seek) (Some headers)
                  globalExtendedHeader files)
     else Some (Continue (plus_number (Some offset) seek) None
                  (Some (spread globalExtendedHeader ++ headers)) files)
   }"

definition gnu_long_name ::
  "bytes \<Rightarrow> int \<Rightarrow> number \<Rightarrow> number \<Rightarrow> object option \<Rightarrow> tar_item list \<Rightarrow> ctl option" where
  "gnu_long_name buffer offset seek sz globalExtendedHeader files = do {
     path \<leftarrow> readString buffer (offset + 512) sz;
     Some (Continue (plus_number (Some offset) seek) (Some [''path'' \<mapsto> Str path])
             globalExtendedHeader files)
   }"

text \<open>Lines 59 to 156, the whole body.\<close>

definition parseTar_body ::
  "bytes \<Rightarrow> parse_opts \<Rightarrow> int \<Rightarrow> object option \<Rightarrow> object option \<Rightarrow> tar_item list
     \<Rightarrow> ctl option" where
  "parseTar_body buffer opts offset nextExtendedHeader globalExtendedHeader files = do {
     name \<leftarrow> readString buffer offset (Some 100);
     if name = [] then Some (Break files)
     else do {
       let name = override_name nextExtendedHeader name;
       mode \<leftarrow> map_option trim (readString buffer (offset + 100) (Some 8));
       uid \<leftarrow> map_option (\<lambda>s. parseInt s 0) (readString buffer (offset + 108) (Some 8));
       gid \<leftarrow> map_option (\<lambda>s. parseInt s 0) (readString buffer (offset + 116) (Some 8));
       sz \<leftarrow> readNumber buffer (offset + 124) 12;
       let seek = seek_of sz;
       mtime \<leftarrow> readNumber buffer (offset + 136) 12;
       t \<leftarrow> readString buffer (offset + 156) (Some 1);
       let type = resolve_type t;
       if type = ''extendedHeader'' \<or> type = ''globalExtendedHeader''
       then extended_header buffer offset seek sz type globalExtendedHeader files
       else if type = ''gnuLongFileName'' \<or> type = ''gnuOldLongFileName''
               \<or> type = ''gnuLongLinkName''
       then gnu_long_name buffer offset seek sz globalExtendedHeader files
       else do {
         (user, group, name) \<leftarrow> ustar_fields buffer offset name;
         let meta = make_meta name type sz globalExtendedHeader nextExtendedHeader
                      mode uid gid mtime user group;
         emit buffer opts offset seek sz globalExtendedHeader files meta
       }
     }
   }"

text \<open>The loop of \<^verbatim>\<open>parseTar\<close>. It need not end (a size field of \<open>-512\<close> leaves the cursor
  where it is), so the function is partial: \<open>None\<close> is a run that never returns,
  \<open>Some None\<close> one that throws, \<open>Some (Some files)\<close> one that returns \<open>files\<close>. A cursor
  of NaN fails the loop test.\<close>

partial_function (option) parseTar_loop ::
  "bytes \<Rightarrow> parse_opts \<Rightarrow> number \<Rightarrow> object option \<Rightarrow> object option \<Rightarrow> tar_item list
     \<Rightarrow> tar_item list option option" where
  "parseTar_loop buffer opts offset nextExtendedHeader globalExtendedHeader files =
     (case offset of
        None \<Rightarrow> Some (Some files)
      | Some off \<Rightarrow>
          if off < int (length buffer) - 512 then
            (case parseTar_body buffer opts off nextExtendedHeader globalExtendedHeader files of
               None \<Rightarrow> Some None
             | Some (Break fs) \<Rightarrow> Some (Some fs)
             | Some (Continue off' next' global' files') \<Rightarrow>
                 parseTar_loop buffer opts off' next' global' files')
          else Some (Some files))"

text \<open>\<^verbatim>\<open>parseTar(data, opts)\<close>, \<open>data\<close> being the bytes of the whole underlying buffer.\<close>

definition parseTar :: "bytes \<Rightarrow> parse_opts \<Rightarrow> tar_item list option option" where
  "parseTar data opts = parseTar_loop data opts (Some 0) None None []"

section \<open>The encoder\<close>

text \<open>The attributes an entry or the options may carry; \<open>None\<close> is a missing,
  \<^verbatim>\<open>undefined\<close> or \<^verbatim>\<open>null\<close> property. Numbers are integers.\<close>

record file_attrs =
  attr_mode :: "string option"
  attr_uid :: "int option"
  attr_gid :: "int option"
  attr_mtime :: "int option"
  attr_user :: "string option"
  attr_group :: "string option"

text \<open>An entry handed to \<^verbatim>\<open>createTar\<close>. \<open>file_data\<close> is the payload after
  \<^verbatim>\<open>_normalizeData\<close>: \<open>None\<close> when it is absent, else its bytes (a string is its UTF-8
  encoding already).\<close>

record tar_file_input =
  file_name :: string
  file_attrs :: "file_attrs option"
  file_data :: "bytes option"

text \<open>\<^verbatim>\<open>file.attrs?.f ?? opts.attrs?.f ?? d\<close>\<close>

definition attr_or ::
  "(file_attrs \<Rightarrow> 'a option) \<Rightarrow> file_attrs option \<Rightarrow> file_attrs option \<Rightarrow> 'a \<Rightarrow> 'a" where
  "attr_or f file_a opts_a d =
     (case Option.bind file_a f of
        Some v \<Rightarrow> v
      | None \<Rightarrow> (case Option.bind opts_a f of Some v \<Rightarrow> v | None \<Rightarrow> d))"

text \<open>The length of a string in UTF-16 code units, counted on its UTF-8 bytes: one for
  each character, and one more for each character of four bytes.\<close>

definition is_continuation :: "char \<Rightarrow> bool" where
  "is_continuation c = (128 \<le> (of_char c :: nat) \<and> (of_char c :: nat) < 192)"

definition String_length :: "string \<Rightarrow> nat" where
  "String_length s =
     length (filter (\<lambda>c. \<not> is_continuation c) s)
     + length (filter (\<lambda>c. 240 \<le> (of_char c :: nat)) s)"

text \<open>\<^verbatim>\<open>String(input).padStart(targetLength, "0")\<close>\<close>

definition leftPad :: "string \<Rightarrow> nat \<Rightarrow> string" where
  "leftPad input targetLength =
     replicate (targetLength - String_length input) CHR ''0'' @ input"

text \<open>\<^verbatim>\<open>n.toString(8)\<close> on an integer.\<close>

fun digits8 :: "nat \<Rightarrow> string" where
  "digits8 n =
     (if n < 8 then [char_of (48 + n)] else digits8 (n div 8) @ [char_of (48 + n mod 8)])"

declare digits8.simps [simp del]

definition toString8 :: "int \<Rightarrow> string" where
  "toString8 n = (if n < 0 then CHR ''-'' # digits8 (nat (- n)) else digits8 (nat n))"

text \<open>The UTF-8 bytes \<^verbatim>\<open>TextEncoder\<close> makes of a string: those of the string, with U+FFFD
  in the place of every unpaired surrogate (three bytes, the first \<open>ED\<close> and the second from
  \<open>A0\<close> to \<open>BF\<close>).\<close>

fun TextEncoder_encode :: "string \<Rightarrow> bytes" where
  "TextEncoder_encode (a # b # c # s) =
     (if a = CHR 0xED \<and> 0xA0 \<le> (of_char b :: nat) \<and> (of_char b :: nat) \<le> 0xBF
      then REPLACEMENT @ TextEncoder_encode s
      else a # TextEncoder_encode (b # c # s))"
| "TextEncoder_encode s = s"

text \<open>\<^verbatim>\<open>te.encodeInto(str, view)\<close> writes the longest run of whole characters of \<open>str\<close>
  that fits the \<open>n\<close> bytes of the view; a character starts at every byte that is not a
  continuation byte.\<close>

fun whole_chars :: "string \<Rightarrow> nat \<Rightarrow> bytes" where
  "whole_chars str 0 = []"
| "whole_chars str (Suc k) =
     (if is_continuation (str ! Suc k) then whole_chars str k else take (Suc k) str)"

definition encodeInto :: "string \<Rightarrow> nat \<Rightarrow> bytes" where
  "encodeInto str n =
     (let bs = TextEncoder_encode str in if length bs \<le> n then bs else whole_chars bs n)"

definition writeString :: "bytes \<Rightarrow> string \<Rightarrow> nat \<Rightarrow> nat \<Rightarrow> bytes option" where
  "writeString buffer str offset sz = do {
     strView \<leftarrow> Uint8Array buffer (int offset) (Some (int sz));
     let written = encodeInto str sz;
     Some (take offset buffer @ written @ replicate (sz - length written) CHR 0x00
             @ drop (offset + sz) buffer)
   }"

text \<open>\<^verbatim>\<open>512 * Math.trunc(size / 512)\<close>, and 512 more when \<^verbatim>\<open>size % 512\<close> is not 0.\<close>

definition padded :: "nat \<Rightarrow> nat" where
  "padded sz = 512 * (sz div 512) + (if sz mod 512 \<noteq> 0 then 512 else 0)"

text \<open>\<^verbatim>\<open>data?.length || 0\<close>\<close>

definition file_size :: "tar_file_input \<Rightarrow> nat" where
  "file_size file = (case file_data file of None \<Rightarrow> 0 | Some d \<Rightarrow> length d)"

text \<open>The body of the second loop of \<^verbatim>\<open>createTar\<close>, in two pieces. Lines 220 to 262:
  the fields of the header of one entry are written at \<open>offset\<close>, the checksum last, over
  the sum of the 512 bytes of the header with the checksum field holding spaces. \<open>now\<close>
  is what \<^verbatim>\<open>Date.now()\<close> returns.\<close>

definition write_header ::
  "file_attrs option \<Rightarrow> int \<Rightarrow> bytes \<Rightarrow> nat \<Rightarrow> tar_file_input \<Rightarrow> bytes option" where
  "write_header opts_attrs now buffer offset file = do {
     let isDir = (file_data file = None);
     buffer \<leftarrow> writeString buffer (file_name file) offset 100;
     let mode = attr_or attr_mode (file_attrs file) opts_attrs (if isDir then ''775'' else ''664'');
     buffer \<leftarrow> writeString buffer (leftPad mode 7) (offset + 100) 8;
     let uid = attr_or attr_uid (file_attrs file) opts_attrs 1000;
     buffer \<leftarrow> writeString buffer (leftPad (toString8 uid) 7) (offset + 108) 8;
     let gid = attr_or attr_gid (file_attrs file) opts_attrs 1000;
     buffer \<leftarrow> writeString buffer (leftPad (toString8 gid) 7) (offset + 116) 8;
     buffer \<leftarrow> writeString buffer (leftPad (toString8 (int (file_size file))) 11) (offset + 124) 12;
     let mtime = attr_or attr_mtime (file_attrs file) opts_attrs now;
     buffer \<leftarrow> writeString buffer (leftPad (toString8 (trunc_div mtime 1000)) 11) (offset + 136) 12;
     let type = (if isDir then ''5'' else ''0'');
     buffer \<leftarrow> writeString buffer type (offset + 156) 1;
     buffer \<leftarrow> writeString buffer ''ustar'' (offset + 257) 6;
     buffer \<leftarrow> writeString buffer ''00'' (offset + 263) 2;
     let user = attr_or attr_user (file_attrs file) opts_attrs [];
     buffer \<leftarrow> writeString buffer user (offset + 265) 32;
     let group = attr_or attr_group (file_attrs file) opts_attrs [];
     buffer \<leftarrow> writeString buffer group (offset + 297) 32;
     buffer \<leftarrow> writeString buffer ''        '' (offset + 148) 8;
     header \<leftarrow> Uint8Array buffer (int offset) (Some 512);
     let chksum = (sum_list (map of_char header) :: nat);
     writeString buffer (toString8 (int chksum)) (offset + 148) 8
   }"

text \<open>Lines 219 to 273: the header, then the payload and the next offset.\<close>

definition createTar_file ::
  "file_attrs option \<Rightarrow> int \<Rightarrow> bytes \<Rightarrow> nat \<Rightarrow> tar_file_input \<Rightarrow> (bytes \<times> nat) option" where
  "createTar_file opts_attrs now buffer offset file = do {
     buffer \<leftarrow> write_header opts_attrs now buffer offset file;
     (case file_data file of
        None \<Rightarrow> Some (buffer, offset + 512)
      | Some d \<Rightarrow> do {
          destArray \<leftarrow> Uint8Array buffer (int (offset + 512)) (Some (int (file_size file)));
          Some (take (offset + 512) buffer @ d @ drop (offset + 512 + file_size file) buffer,
                offset + padded (file_size file) + 512)
        })
   }"

fun createTar_loop ::
  "file_attrs option \<Rightarrow> int \<Rightarrow> bytes \<Rightarrow> nat \<Rightarrow> tar_file_input list \<Rightarrow> (bytes \<times> nat) option" where
  "createTar_loop opts_attrs now buffer offset [] = Some (buffer, offset)"
| "createTar_loop opts_attrs now buffer offset (file # files) = do {
     (buffer, offset) \<leftarrow> createTar_file opts_attrs now buffer offset file;
     createTar_loop opts_attrs now buffer offset files
   }"

text \<open>The first loop of \<^verbatim>\<open>createTar\<close> and the rounding to records of 10240 bytes.\<close>

definition tarDataSize :: "tar_file_input list \<Rightarrow> nat" where
  "tarDataSize files = foldl (\<lambda>total file. total + 512 + padded (file_size file)) 0 files"

definition bufSize :: "tar_file_input list \<Rightarrow> nat" where
  "bufSize files =
     10240 * (tarDataSize files div 10240)
     + (if tarDataSize files mod 10240 \<noteq> 0 then 10240 else 0)"

definition createTar :: "tar_file_input list \<Rightarrow> file_attrs option \<Rightarrow> int \<Rightarrow> bytes option" where
  "createTar files opts_attrs now =
     map_option fst
       (createTar_loop opts_attrs now (replicate (bufSize files) CHR 0x00) 0 files)"

section \<open>Notions for the proofs\<close>

text \<open>
  The definitions of this section are not functions of the program. They name what the
  program leaves in the buffer, so that the theorems can say it: the bytes one call of
  \<^verbatim>\<open>_writeString\<close> puts into its field, the header and the block of one entry, a field of a
  header and what the decoder reads from it. That \<^verbatim>\<open>createTar\<close> produces exactly these
  blocks is proved below (\<open>createTar_blocks\<close>), not assumed.
\<close>

text \<open>An octal digit.\<close>

definition octal :: "char \<Rightarrow> bool" where
  "octal c = (48 \<le> (of_char c :: nat) \<and> (of_char c :: nat) < 56)"

text \<open>The \<open>n\<close> bytes \<^verbatim>\<open>_writeString\<close> leaves in a field of width \<open>n\<close>: what \<^verbatim>\<open>encodeInto\<close> wrote, then NUL bytes.\<close>

definition fieldz :: "nat \<Rightarrow> string \<Rightarrow> bytes" where
  "fieldz n str = encodeInto str n @ replicate (n - length (encodeInto str n)) CHR 0x00"

text \<open>The buffer \<open>H\<close> with the bytes \<open>bs\<close> written at index \<open>j\<close>.\<close>

definition store :: "bytes \<Rightarrow> nat \<Rightarrow> bytes \<Rightarrow> bytes" where
  "store H j bs = take (length H) (take j H @ bs @ drop (j + length bs) H)"

text \<open>The 512 bytes of a header when the checksum is computed: the fields in the order \<^verbatim>\<open>createTar\<close> writes them into a block of NUL bytes, the checksum field holding eight spaces.\<close>

definition header_blank :: "file_attrs option \<Rightarrow> int \<Rightarrow> tar_file_input \<Rightarrow> bytes" where
  "header_blank opts_attrs now file =
     foldl (\<lambda>H (j, n, str). store H j (fieldz n str)) (replicate 512 CHR 0x00)
       [(0, 100, file_name file),
        (100, 8, leftPad (attr_or attr_mode (file_attrs file) opts_attrs
                            (if file_data file = None then ''775'' else ''664'')) 7),
        (108, 8, leftPad (toString8 (attr_or attr_uid (file_attrs file) opts_attrs 1000)) 7),
        (116, 8, leftPad (toString8 (attr_or attr_gid (file_attrs file) opts_attrs 1000)) 7),
        (124, 12, leftPad (toString8 (int (file_size file))) 11),
        (136, 12, leftPad (toString8 (trunc_div (attr_or attr_mtime (file_attrs file) opts_attrs now) 1000)) 11),
        (156, 1, if file_data file = None then ''5'' else ''0''),
        (257, 6, ''ustar''),
        (263, 2, ''00''),
        (265, 32, attr_or attr_user (file_attrs file) opts_attrs []),
        (297, 32, attr_or attr_group (file_attrs file) opts_attrs []),
        (148, 8, ''        '')]"

text \<open>The finished header: the checksum, in octal, written over the spaces.\<close>

definition header_of :: "file_attrs option \<Rightarrow> int \<Rightarrow> tar_file_input \<Rightarrow> bytes" where
  "header_of opts_attrs now file =
     store (header_blank opts_attrs now file) 148
       (fieldz 8 (toString8 (int (sum_list (map of_char (header_blank opts_attrs now file))))))"

text \<open>The header of an entry followed by its payload, padded with NUL bytes to whole blocks of 512 bytes; a directory has no payload block.\<close>

definition entry_block :: "file_attrs option \<Rightarrow> int \<Rightarrow> tar_file_input \<Rightarrow> bytes" where
  "entry_block opts_attrs now file =
     header_of opts_attrs now file @
     (case file_data file of
        None \<Rightarrow> []
      | Some d \<Rightarrow> d @ replicate (padded (length d) - length d) CHR 0x00)"

text \<open>The \<open>n\<close> bytes of \<open>H\<close> from index \<open>j\<close> on.\<close>

definition field :: "bytes \<Rightarrow> nat \<Rightarrow> nat \<Rightarrow> bytes" where
  "field H j n = take n (drop j H)"

text \<open>What \<^verbatim>\<open>_readString\<close> and \<^verbatim>\<open>_readNumber\<close> make of a field.\<close>

definition field_string :: "bytes \<Rightarrow> nat \<Rightarrow> nat \<Rightarrow> string" where
  "field_string H j n = TextDecoder_decode (takeWhile (\<lambda>c. c \<noteq> CHR 0x00) (field H j n))"

definition field_number :: "bytes \<Rightarrow> nat \<Rightarrow> nat \<Rightarrow> number" where
  "field_number H j n = parseInt (concat (map fromCodePoint (field H j n))) 8"

text \<open>The entry \<^verbatim>\<open>parseTar\<close> is proved to return for an entry written by \<^verbatim>\<open>createTar\<close>: the attributes are what the decoder reads from the fields of the header.\<close>

definition decoded_item :: "file_attrs option \<Rightarrow> int \<Rightarrow> tar_file_input \<Rightarrow> tar_item" where
  "decoded_item opts_attrs now file =
     (let H = header_of opts_attrs now file in
      (make_meta (file_name file) (if file_data file = None then ''directory'' else ''file'')
         (Some (int (file_size file))) None None
         (trim (field_string H 100 8)) (parseInt (field_string H 108 8) 0)
         (parseInt (field_string H 116 8) 0) (field_number H 136 12)
         (Str (field_string H 265 32)) (Str (field_string H 297 32)))
      \<lparr>item_data := (if file_size file = 0 then None else file_data file)\<rparr>)"

text \<open>Well-formed UTF-8, as the Unicode Standard defines it (table 3-7): the strings
  without an unpaired surrogate. \<open>between lower upper c\<close> bounds the byte \<open>c\<close>.\<close>

definition between :: "nat \<Rightarrow> nat \<Rightarrow> char \<Rightarrow> bool" where
  "between lower upper c = (lower \<le> (of_char c :: nat) \<and> (of_char c :: nat) \<le> upper)"

fun utf8 :: "string \<Rightarrow> bool" where
  "utf8 [] = True"
| "utf8 (a # s) =
     (let n = (of_char a :: nat) in
      if n \<le> 0x7F then utf8 s
      else if 0xC2 \<le> n \<and> n \<le> 0xDF then
        (case s of b # s' \<Rightarrow> between 0x80 0xBF b \<and> utf8 s' | _ \<Rightarrow> False)
      else if 0xE0 \<le> n \<and> n \<le> 0xEF then
        (case s of
           b # c # s' \<Rightarrow>
             between (if n = 0xE0 then 0xA0 else 0x80) (if n = 0xED then 0x9F else 0xBF) b
             \<and> between 0x80 0xBF c \<and> utf8 s'
         | _ \<Rightarrow> False)
      else if 0xF0 \<le> n \<and> n \<le> 0xF4 then
        (case s of
           b # c # d # s' \<Rightarrow>
             between (if n = 0xF0 then 0x90 else 0x80) (if n = 0xF4 then 0x8F else 0xBF) b
             \<and> between 0x80 0xBF c \<and> between 0x80 0xBF d \<and> utf8 s'
         | _ \<Rightarrow> False)
      else False)"

declare utf8.simps(2) [simp del]

text \<open>The names that survive the way through the name field: not empty, at most 100 bytes, no NUL, no byte order mark in front, no unpaired surrogate.\<close>

definition name_ok :: "string \<Rightarrow> bool" where
  "name_ok s =
     (s \<noteq> [] \<and> length s \<le> 100 \<and> CHR 0x00 \<notin> set s \<and> \<not> prefix BOM s \<and> utf8 s)"

text \<open>A string of ASCII characters other than NUL.\<close>

definition plain :: "string \<Rightarrow> bool" where
  "plain s = (\<forall>c \<in> set s. c \<noteq> CHR 0x00 \<and> (of_char c :: nat) < 128)"

section \<open>Example archives\<close>

text \<open>Buffers for \<^verbatim>\<open>parseTar\<close>. The first is a file of three bytes with a USTAR prefix
  and a NUL type byte, followed by NUL blocks.\<close>

definition example_entry :: bytes where
  "example_entry =
     ''/c.txt'' @ replicate 94 CHR 0x00 @ ''0000664'' @ [CHR 0x00] @ ''0001750'' @ [CHR 0x00]
     @ ''0001750'' @ [CHR 0x00] @ ''00000000003'' @ [CHR 0x00] @ ''00000000000'' @ [CHR 0x00]
     @ ''        '' @ [CHR 0x00] @ replicate 100 CHR 0x00 @ ''ustar'' @ [CHR 0x00] @ ''00''
     @ replicate 80 CHR 0x00 @ ''a/b/'' @ replicate 163 CHR 0x00
     @ ''abc'' @ replicate 1021 CHR 0x00"

text \<open>A header block with the name, the size field (eleven characters) and the type byte
  given, mode \<^verbatim>\<open>0000664\<close>, uid and gid \<^verbatim>\<open>0001750\<close>, mtime 0, the magic \<^verbatim>\<open>ustar\<close> and no
  prefix.\<close>

definition example_header :: "string \<Rightarrow> string \<Rightarrow> string \<Rightarrow> bytes" where
  "example_header name sz type =
     name @ replicate (100 - length name) CHR 0x00 @ ''0000664'' @ [CHR 0x00]
     @ ''0001750'' @ [CHR 0x00] @ ''0001750'' @ [CHR 0x00] @ sz @ [CHR 0x00]
     @ ''00000000000'' @ [CHR 0x00] @ ''        '' @ type @ replicate 100 CHR 0x00
     @ ''ustar'' @ [CHR 0x00] @ ''00'' @ replicate 247 CHR 0x00"

text \<open>An archive with extended headers: a global header with the records \<^verbatim>\<open>path=G\<close> and
  \<^verbatim>\<open>comment=c\<close>; a header for the next entry with \<^verbatim>\<open>path=N\<close> and \<^verbatim>\<open>mode=777\<close>; the empty
  file \<^verbatim>\<open>R1\<close>; a header for the next entry with \<^verbatim>\<open>path=P\<close>; a second global header with
  \<^verbatim>\<open>path=H\<close>; the empty file \<^verbatim>\<open>R2\<close>; two NUL blocks.\<close>

definition example_pax :: bytes where
  "example_pax =
     example_header ''g'' ''00000000027'' ''g''
     @ (''10 path=G'' @ [CHR 0x0A] @ ''13 comment=c'' @ [CHR 0x0A]) @ replicate 489 CHR 0x00
     @ example_header ''x'' ''00000000026'' ''x''
     @ (''10 path=N'' @ [CHR 0x0A] @ ''12 mode=777'' @ [CHR 0x0A]) @ replicate 490 CHR 0x00
     @ example_header ''R1'' ''00000000000'' ''0''
     @ example_header ''x'' ''00000000012'' ''x''
     @ (''10 path=P'' @ [CHR 0x0A]) @ replicate 502 CHR 0x00
     @ example_header ''g'' ''00000000012'' ''g''
     @ (''10 path=H'' @ [CHR 0x0A]) @ replicate 502 CHR 0x00
     @ example_header ''R2'' ''00000000000'' ''0''
     @ replicate 1024 CHR 0x00"

text \<open>An archive of three headers without payload, \<^verbatim>\<open>R\<close>, \<^verbatim>\<open>S\<close> and \<^verbatim>\<open>T\<close>, and two NUL
  blocks; the size field of \<^verbatim>\<open>R\<close> reads \<open>-1\<close>.\<close>

definition example_negative :: bytes where
  "example_negative =
     example_header ''R'' ''-0000000001'' ''0''
     @ example_header ''S'' ''00000000000'' ''0''
     @ example_header ''T'' ''00000000000'' ''0''
     @ replicate 1024 CHR 0x00"

definition no_opts :: parse_opts where
  "no_opts = \<lparr>filter_fn = None, metaOnly = False\<rparr>"

definition only_meta :: parse_opts where
  "only_meta = \<lparr>filter_fn = None, metaOnly = True\<rparr>"

text \<open>Entries for \<^verbatim>\<open>createTar\<close>: a directory, a file of three bytes, an entry with the empty name, and a file with an \<^verbatim>\<open>mtime\<close> of its own.\<close>

definition example_dir :: tar_file_input where
  "example_dir = \<lparr>file_name = ''d'', file_attrs = None, file_data = None\<rparr>"

definition example_file :: tar_file_input where
  "example_file = \<lparr>file_name = ''a.txt'', file_attrs = None, file_data = Some ''abc''\<rparr>"

definition example_unnamed :: tar_file_input where
  "example_unnamed = \<lparr>file_name = [], file_attrs = None, file_data = None\<rparr>"

definition example_dated :: tar_file_input where
  "example_dated = \<lparr>file_name = ''a.txt'',
     file_attrs = Some \<lparr>attr_mode = None, attr_uid = None, attr_gid = None, attr_mtime = Some 5000,
                        attr_user = None, attr_group = None\<rparr>,
     file_data = Some ''abc''\<rparr>"

section \<open>Properties of the decoder\<close>

subsection \<open>Text\<close>

lemma utf8_decode_low:
  "(of_char b :: nat) \<le> 0x7F \<Longrightarrow> utf8_decode seen 0 lower upper (b # bs) = b # utf8_decode [] 0 0x80 0xBF bs"
  by (simp add: utf8_decode.simps(2))

lemma utf8_decode_ascii:
  "\<forall>c \<in> set s. (of_char c :: nat) < 128 \<Longrightarrow> utf8_decode seen 0 lower upper s = s"
  by (induction s arbitrary: seen lower upper) (simp_all add: utf8_decode_low)

lemma not_BOM_ascii:
  assumes "\<forall>c \<in> set s. (of_char c :: nat) < 128"
  shows "\<not> prefix BOM s"
proof
  assume "prefix BOM s"
  then obtain t where "s = BOM @ t" by (auto simp: prefix_def)
  then have "CHR 0xEF \<in> set s" by (simp add: BOM_def)
  then show False using assms by auto
qed

lemma TextDecoder_ascii:
  "\<forall>c \<in> set s. (of_char c :: nat) < 128 \<Longrightarrow> TextDecoder_decode s = s"
  by (simp add: TextDecoder_decode_def not_BOM_ascii utf8_decode_ascii)

lemma TextDecoder_Nil [simp]: "TextDecoder_decode [] = []"
  by (simp add: TextDecoder_decode_def)

lemma utf8_ascii: "\<forall>c \<in> set s. (of_char c :: nat) < 128 \<Longrightarrow> utf8 s"
  by (induction s) (simp_all add: utf8.simps(2))

lemma utf8_decode_utf8: "utf8 s \<Longrightarrow> utf8_decode [] 0 0x80 0xBF s = s"
proof (induction s rule: utf8.induct)
  case 1
  show ?case by simp
next
  case (2 a s)
  define n where "n = (of_char a :: nat)"
  consider (one) "n \<le> 0x7F"
    | (two) "0xC2 \<le> n" "n \<le> 0xDF"
    | (three) "0xE0 \<le> n" "n \<le> 0xEF"
    | (four) "0xF0 \<le> n" "n \<le> 0xF4"
    | (bad) "0x7F < n" "n < 0xC2 \<or> 0xF4 < n"
    by linarith
  then show ?case
  proof cases
    case one
    then have "utf8 s" using "2.prems" by (simp add: utf8.simps(2) n_def)
    then have "utf8_decode [] 0 0x80 0xBF s = s" using "2.IH"(1)[OF n_def one] by simp
    then show ?thesis using one by (simp add: utf8_decode_low n_def)
  next
    case two
    then obtain b s' where s: "s = b # s'" and b: "between 0x80 0xBF b" and u: "utf8 s'"
      using "2.prems" by (auto simp: utf8.simps(2) n_def[symmetric] Let_def split: list.splits)
    have "utf8_decode [] 0 0x80 0xBF s' = s'"
      using "2.IH"(2)[OF n_def _ _ s] two u by simp
    then show ?thesis
      using two b unfolding s
      by (simp add: utf8_decode.simps(2)[of _ _ _ _ a] utf8_decode.simps(2)[of _ _ _ _ b] n_def[symmetric] between_def Let_def)
  next
    case three
    then obtain b c s' where s: "s = b # c # s'"
      and b: "between (if n = 0xE0 then 0xA0 else 0x80) (if n = 0xED then 0x9F else 0xBF) b"
      and c: "between 0x80 0xBF c" and u: "utf8 s'"
      using "2.prems" by (auto simp: utf8.simps(2) n_def[symmetric] Let_def split: list.splits)
    have "utf8_decode [] 0 0x80 0xBF s' = s'"
      using "2.IH"(3)[OF n_def _ _ _ s refl] three u by simp
    then show ?thesis
      using three b c unfolding s
      by (simp add: utf8_decode.simps(2)[of _ _ _ _ a] utf8_decode.simps(2)[of _ _ _ _ b]
            utf8_decode.simps(2)[of _ _ _ _ c] n_def[symmetric] between_def Let_def)
  next
    case four
    then obtain b c d s' where s: "s = b # c # d # s'"
      and b: "between (if n = 0xF0 then 0x90 else 0x80) (if n = 0xF4 then 0x8F else 0xBF) b"
      and c: "between 0x80 0xBF c" and d: "between 0x80 0xBF d" and u: "utf8 s'"
      using "2.prems" by (auto simp: utf8.simps(2) n_def[symmetric] Let_def split: list.splits)
    have "utf8_decode [] 0 0x80 0xBF s' = s'"
      using "2.IH"(4)[OF n_def _ _ _ _ s refl refl] four u by simp
    then show ?thesis
      using four b c d unfolding s
      by (simp add: utf8_decode.simps(2)[of _ _ _ _ a] utf8_decode.simps(2)[of _ _ _ _ b]
            utf8_decode.simps(2)[of _ _ _ _ c] utf8_decode.simps(2)[of _ _ _ _ d]
            n_def[symmetric] between_def Let_def)
  next
    case bad
    then show ?thesis using "2.prems" by (auto simp: utf8.simps(2) n_def[symmetric] Let_def)
  qed
qed

lemma TextDecoder_utf8: "utf8 s \<Longrightarrow> \<not> prefix BOM s \<Longrightarrow> TextDecoder_decode s = s"
  by (simp add: TextDecoder_decode_def utf8_decode_utf8)

lemma encode_other:
  assumes "a \<noteq> CHR 0xED"
  shows "TextEncoder_encode (a # s) = a # TextEncoder_encode s"
proof (cases s)
  case Nil
  then show ?thesis by simp
next
  case (Cons b t)
  then show ?thesis using assms by (cases t) simp_all
qed

lemma encode_low_second:
  "(of_char b :: nat) < 0xA0 \<Longrightarrow> TextEncoder_encode (a # b # s) = a # TextEncoder_encode (b # s)"
  by (cases s) simp_all

lemma between_not_ED: "between lower upper c \<Longrightarrow> upper \<le> 0xBF \<Longrightarrow> c \<noteq> CHR 0xED"
  by (auto simp: between_def)

lemma TextEncoder_utf8: "utf8 s \<Longrightarrow> TextEncoder_encode s = s"
proof (induction s rule: utf8.induct)
  case 1
  show ?case by simp
next
  case (2 a s)
  define n where "n = (of_char a :: nat)"
  consider (one) "n \<le> 0x7F"
    | (two) "0xC2 \<le> n" "n \<le> 0xDF"
    | (three) "0xE0 \<le> n" "n \<le> 0xEF"
    | (four) "0xF0 \<le> n" "n \<le> 0xF4"
    | (bad) "0x7F < n" "n < 0xC2 \<or> 0xF4 < n"
    by linarith
  then show ?case
  proof cases
    case one
    then have "utf8 s" using "2.prems" by (simp add: utf8.simps(2) n_def)
    then have "TextEncoder_encode s = s" using "2.IH"(1)[OF n_def one] by simp
    moreover have "a \<noteq> CHR 0xED" using one by (auto simp: n_def)
    ultimately show ?thesis by (simp add: encode_other)
  next
    case two
    then obtain b s' where s: "s = b # s'" and b: "between 0x80 0xBF b" and u: "utf8 s'"
      using "2.prems" by (auto simp: utf8.simps(2) n_def[symmetric] Let_def split: list.splits)
    have "TextEncoder_encode s' = s'"
      using "2.IH"(2)[OF n_def _ _ s] two u by simp
    moreover have "a \<noteq> CHR 0xED" using two by (auto simp: n_def)
    moreover have "b \<noteq> CHR 0xED" using b by (rule between_not_ED) simp
    ultimately show ?thesis unfolding s by (simp add: encode_other)
  next
    case three
    then obtain b c s' where s: "s = b # c # s'"
      and b: "between (if n = 0xE0 then 0xA0 else 0x80) (if n = 0xED then 0x9F else 0xBF) b"
      and c: "between 0x80 0xBF c" and u: "utf8 s'"
      using "2.prems" by (auto simp: utf8.simps(2) n_def[symmetric] Let_def split: list.splits)
    have ih: "TextEncoder_encode s' = s'"
      using "2.IH"(3)[OF n_def _ _ _ s refl] three u by simp
    have nb: "b \<noteq> CHR 0xED" using b by (rule between_not_ED) simp
    have nc: "c \<noteq> CHR 0xED" using c by (rule between_not_ED) simp
    have "TextEncoder_encode (a # b # c # s') = a # TextEncoder_encode (b # c # s')"
    proof (cases "a = CHR 0xED")
      case True
      then have "n = 0xED" by (simp add: n_def)
      then have "(of_char b :: nat) < 0xA0" using b by (simp add: between_def)
      then show ?thesis by (rule encode_low_second)
    next
      case False
      then show ?thesis by (rule encode_other)
    qed
    then show ?thesis unfolding s using ih nb nc by (simp add: encode_other)
  next
    case four
    then obtain b c d s' where s: "s = b # c # d # s'"
      and b: "between (if n = 0xF0 then 0x90 else 0x80) (if n = 0xF4 then 0x8F else 0xBF) b"
      and c: "between 0x80 0xBF c" and d: "between 0x80 0xBF d" and u: "utf8 s'"
      using "2.prems" by (auto simp: utf8.simps(2) n_def[symmetric] Let_def split: list.splits)
    have ih: "TextEncoder_encode s' = s'"
      using "2.IH"(4)[OF n_def _ _ _ _ s refl refl] four u by simp
    have na: "a \<noteq> CHR 0xED" using four by (auto simp: n_def)
    have nb: "b \<noteq> CHR 0xED" using b by (rule between_not_ED) simp
    have nc: "c \<noteq> CHR 0xED" using c by (rule between_not_ED) simp
    have nd: "d \<noteq> CHR 0xED" using d by (rule between_not_ED) simp
    show ?thesis unfolding s using ih na nb nc nd by (simp add: encode_other)
  next
    case bad
    then show ?thesis using "2.prems" by (auto simp: utf8.simps(2) n_def[symmetric] Let_def)
  qed
qed

lemma decode_one_byte:
  "TextDecoder_decode [c] = (if (of_char c :: nat) \<le> 0x7F then [c] else REPLACEMENT)"
  by (simp add: TextDecoder_decode_def BOM_def utf8_decode.simps(2) Let_def)

subsection \<open>Reading a header\<close>

lemma Uint8Array_in_range:
  "0 \<le> off \<Longrightarrow> 0 \<le> n \<Longrightarrow> off + n \<le> int (length buf) \<Longrightarrow>
   Uint8Array buf off (Some n) = Some (take (nat n) (drop (nat off) buf))"
  by (simp add: Uint8Array_def)

lemma header_reads:
  assumes "0 \<le> off" "off < int (length buf) - 512"
  obtains name0 md u g sz mt t where
    "readString buf off (Some 100) = Some name0"
    "readString buf (off + 100) (Some 8) = Some md"
    "readString buf (off + 108) (Some 8) = Some u"
    "readString buf (off + 116) (Some 8) = Some g"
    "readNumber buf (off + 124) 12 = Some sz"
    "readNumber buf (off + 136) 12 = Some mt"
    "readString buf (off + 156) (Some 1) = Some t"
  using assms by (simp add: readString_def readNumber_def Uint8Array_in_range)

lemma ustar_reads:
  assumes "0 \<le> off" "off < int (length buf) - 512"
  obtains us usr grp pre where
    "readString buf (off + 257) (Some 6) = Some us"
    "readString buf (off + 265) (Some 32) = Some usr"
    "readString buf (off + 297) (Some 32) = Some grp"
    "readString buf (off + 345) (Some 155) = Some pre"
  using assms by (simp add: readString_def readNumber_def Uint8Array_in_range)

lemma parseTar_body_eq:
  assumes "readString buffer offset (Some 100) = Some name0"
    "readString buffer (offset + 100) (Some 8) = Some md"
    "readString buffer (offset + 108) (Some 8) = Some u"
    "readString buffer (offset + 116) (Some 8) = Some g"
    "readNumber buffer (offset + 124) 12 = Some sz"
    "readNumber buffer (offset + 136) 12 = Some mt"
    "readString buffer (offset + 156) (Some 1) = Some t"
  shows "parseTar_body buffer opts offset nxt glob files =
     (if name0 = [] then Some (Break files)
      else if resolve_type t = ''extendedHeader'' \<or> resolve_type t = ''globalExtendedHeader''
      then extended_header buffer offset (seek_of sz) sz (resolve_type t) glob files
      else if resolve_type t = ''gnuLongFileName'' \<or> resolve_type t = ''gnuOldLongFileName''
               \<or> resolve_type t = ''gnuLongLinkName''
      then gnu_long_name buffer offset (seek_of sz) sz glob files
      else (case ustar_fields buffer offset (override_name nxt name0) of
              None \<Rightarrow> None
            | Some (usr, grp, nm) \<Rightarrow>
                emit buffer opts offset (seek_of sz) sz glob files
                  (make_meta nm (resolve_type t) sz glob nxt (trim md) (parseInt u 0)
                     (parseInt g 0) mt usr grp)))"
  unfolding parseTar_body_def
  by (simp add: assms Let_def split: option.splits prod.splits)

lemma ustar_fields_eq:
  assumes "readString buf (off + 257) (Some 6) = Some us"
    "readString buf (off + 265) (Some 32) = Some usr"
    "readString buf (off + 297) (Some 32) = Some grp"
    "readString buf (off + 345) (Some 155) = Some pre"
  shows "ustar_fields buf off name =
     Some (if us = ''ustar'' then (Str usr, Str grp, if pre \<noteq> [] then join_prefix pre name else name)
           else (Undefined, Undefined, name))"
  unfolding ustar_fields_def by (simp add: assms)

lemma emit_Continue:
  assumes "emit buffer opts offset seek sz glob files meta = Some (Continue off' n' g' fs')"
  shows "off' = plus_number (Some offset) seek \<and> n' = None \<and> g' = glob \<and>
         (fs' = files \<or>
          (\<exists>m. fs' = files @ [m] \<and> item_name m = item_name meta \<and> item_type m = item_type meta
             \<and> item_size m = item_size meta \<and> item_attrs m = item_attrs meta))"
  using assms unfolding emit_def
  by (auto split: if_splits Option.bind_splits)

lemma emit_no_filter:
  assumes "emit buffer opts offset seek sz glob files meta = Some (Continue off' n' g' fs')"
    "filter_fn opts = None"
  shows "\<exists>m. fs' = files @ [m] \<and> item_name m = item_name meta \<and> item_type m = item_type meta
             \<and> item_size m = item_size meta \<and> item_attrs m = item_attrs meta"
  using assms unfolding emit_def
  by (auto split: if_splits Option.bind_splits)

lemma extended_header_Continue:
  assumes "extended_header buffer offset seek sz type glob files = Some (Continue off' n' g' fs')"
  shows "off' = plus_number (Some offset) seek \<and> fs' = files \<and>
         (if type = ''extendedHeader'' then g' = glob \<and> n' \<noteq> None
          else n' = None \<and> (\<exists>h. g' = Some (spread glob ++ h)))"
  using assms unfolding extended_header_def
  by (auto simp: Let_def split: if_splits Option.bind_splits)

lemma gnu_long_name_Continue:
  assumes "gnu_long_name buffer offset seek sz glob files = Some (Continue off' n' g' fs')"
  shows "off' = plus_number (Some offset) seek \<and> fs' = files \<and> g' = glob \<and>
         (\<exists>p. n' = Some [''path'' \<mapsto> Str p])"
  using assms unfolding gnu_long_name_def
  by (auto simp: Let_def split: if_splits Option.bind_splits)

lemma seek_of_nonneg:
  "0 \<le> s \<Longrightarrow> seek_of (Some s) = Some (512 + 512 * (s div 512) + (if s mod 512 \<noteq> 0 then 512 else 0))"
proof -
  assume "0 \<le> s"
  then have "trunc_div s 512 = s div 512"
    by (simp add: trunc_div_def sgn_if)
  moreover have "rem s 512 = s mod 512" 
    unfolding rem_def calculation by (simp add: minus_mult_div_eq_mod)
  ultimately show ?thesis by (simp add: seek_of_def)
qed

lemma body_Continue:
  assumes range: "0 \<le> offset" "offset < int (length buffer) - 512"
      and run: "parseTar_body buffer opts offset nxt glob files = Some (Continue off' n' g' fs')"
  obtains sz where "readNumber buffer (offset + 124) 12 = Some sz"
     "off' = plus_number (Some offset) (seek_of sz)"
     "fs' = files \<or> (\<exists>m. fs' = files @ [m] \<and> item_size m = sz)"
proof -
  obtain name0 md u g sz mt t where r:
    "readString buffer offset (Some 100) = Some name0"
    "readString buffer (offset + 100) (Some 8) = Some md"
    "readString buffer (offset + 108) (Some 8) = Some u"
    "readString buffer (offset + 116) (Some 8) = Some g"
    "readNumber buffer (offset + 124) 12 = Some sz"
    "readNumber buffer (offset + 136) 12 = Some mt"
    "readString buffer (offset + 156) (Some 1) = Some t"
    using header_reads[OF range] by metis
  note eq = run[unfolded parseTar_body_eq[OF r]]
  have "off' = plus_number (Some offset) (seek_of sz) \<and> (fs' = files \<or> (\<exists>m. fs' = files @ [m] \<and> item_size m = sz))"
    using eq
    by (auto split: if_splits option.splits prod.splits
          dest!: emit_Continue extended_header_Continue gnu_long_name_Continue
          simp: make_meta_def)
  then show ?thesis using that r(5) by blast
qed


lemma resolve_type_special:
  assumes "length t \<le> 1 \<or> t = REPLACEMENT"
  shows "resolve_type t = ''extendedHeader'' \<longleftrightarrow> t = ''x''"
    and "resolve_type t = ''globalExtendedHeader'' \<longleftrightarrow> t = ''g''"
    and "resolve_type t = ''gnuLongFileName'' \<longleftrightarrow> t = ''L''"
    and "resolve_type t = ''gnuOldLongFileName'' \<longleftrightarrow> t = ''N''"
    and "resolve_type t = ''gnuLongLinkName'' \<longleftrightarrow> t = ''K''"
proof -
  have ev: "resolve_type ''x'' = ''extendedHeader''" "resolve_type ''g'' = ''globalExtendedHeader''"
    "resolve_type ''L'' = ''gnuLongFileName''" "resolve_type ''N'' = ''gnuOldLongFileName''"
    "resolve_type ''K'' = ''gnuLongLinkName''" "resolve_type [] = ''file''"
    by (simp_all add: resolve_type_def tarItemTypeMap_def tarItemTypes_def)
  have inv: "(t, n) \<in> set tarItemTypes"
    if "t \<noteq> []" "resolve_type t = n" "1 < length n" "n \<noteq> REPLACEMENT" for n
  proof (cases "tarItemTypeMap t")
    case None
    then show ?thesis using that assms by (auto simp: resolve_type_def)
  next
    case (Some a)
    then have "(t, a) \<in> set tarItemTypes" unfolding tarItemTypeMap_def by (rule map_of_SomeD)
    then show ?thesis using that Some by (simp add: resolve_type_def)
  qed
  show "resolve_type t = ''extendedHeader'' \<longleftrightarrow> t = ''x''"
    using inv[of "''extendedHeader''"] ev by (cases "t = []") (auto simp: tarItemTypes_def REPLACEMENT_def)
  show "resolve_type t = ''globalExtendedHeader'' \<longleftrightarrow> t = ''g''"
    using inv[of "''globalExtendedHeader''"] ev by (cases "t = []") (auto simp: tarItemTypes_def REPLACEMENT_def)
  show "resolve_type t = ''gnuLongFileName'' \<longleftrightarrow> t = ''L''"
    using inv[of "''gnuLongFileName''"] ev by (cases "t = []") (auto simp: tarItemTypes_def REPLACEMENT_def)
  show "resolve_type t = ''gnuOldLongFileName'' \<longleftrightarrow> t = ''N''"
    using inv[of "''gnuOldLongFileName''"] ev by (cases "t = []") (auto simp: tarItemTypes_def REPLACEMENT_def)
  show "resolve_type t = ''gnuLongLinkName'' \<longleftrightarrow> t = ''K''"
    using inv[of "''gnuLongLinkName''"] ev by (cases "t = []") (auto simp: tarItemTypes_def REPLACEMENT_def)
qed


lemma type_read:
  assumes "readString buf off (Some 1) = Some t"
  shows "length t \<le> 1 \<or> t = REPLACEMENT"
proof -
  obtain view where v: "Uint8Array buf off (Some 1) = Some view"
    and t: "t = TextDecoder_decode (takeWhile (\<lambda>c. c \<noteq> CHR 0x00) view)"
    using assms by (auto simp: readString_def split: Option.bind_splits)
  have "length view \<le> 1"
    using v by (auto simp: Uint8Array_def split: if_splits)
  then consider "view = []" | c where "view = [c]"
    by (cases view) auto
  then show ?thesis
    by cases (auto simp: t decode_one_byte)
qed

lemma body_special:
  assumes r: "readString buffer offset (Some 100) = Some name0"
    "readString buffer (offset + 100) (Some 8) = Some md"
    "readString buffer (offset + 108) (Some 8) = Some u"
    "readString buffer (offset + 116) (Some 8) = Some g"
    "readNumber buffer (offset + 124) 12 = Some sz"
    "readNumber buffer (offset + 136) 12 = Some mt"
    "readString buffer (offset + 156) (Some 1) = Some t"
   and run: "parseTar_body buffer opts offset nxt glob files = Some (Continue off' n' g' fs')"
   and ty: "resolve_type t \<in> {''extendedHeader'', ''globalExtendedHeader'', ''gnuLongFileName'', ''gnuOldLongFileName'', ''gnuLongLinkName''}"
 shows "fs' = files"
proof -
  have "name0 \<noteq> []" using run unfolding parseTar_body_eq[OF r] by (auto split: if_splits)
  then show ?thesis
    using run ty unfolding parseTar_body_eq[OF r]
    by (auto split: if_splits dest!: extended_header_Continue gnu_long_name_Continue)
qed

lemma body_regular:
  assumes r: "readString buffer offset (Some 100) = Some name0"
    "readString buffer (offset + 100) (Some 8) = Some md"
    "readString buffer (offset + 108) (Some 8) = Some u"
    "readString buffer (offset + 116) (Some 8) = Some g"
    "readNumber buffer (offset + 124) 12 = Some sz"
    "readNumber buffer (offset + 136) 12 = Some mt"
    "readString buffer (offset + 156) (Some 1) = Some t"
   and u: "readString buffer (offset + 257) (Some 6) = Some us"
    "readString buffer (offset + 265) (Some 32) = Some usr"
    "readString buffer (offset + 297) (Some 32) = Some grp"
    "readString buffer (offset + 345) (Some 155) = Some pre"
   and run: "parseTar_body buffer opts offset nxt glob files = Some (Continue off' n' g' fs')"
   and ty: "resolve_type t \<notin> {''extendedHeader'', ''globalExtendedHeader'', ''gnuLongFileName'', ''gnuOldLongFileName'', ''gnuLongLinkName''}"
 shows "emit buffer opts offset (seek_of sz) sz glob files
          (make_meta
             (if us = ''ustar'' \<and> pre \<noteq> [] then join_prefix pre (override_name nxt name0)
              else override_name nxt name0)
             (resolve_type t) sz glob nxt (trim md) (parseInt u 0) (parseInt g 0) mt
             (if us = ''ustar'' then Str usr else Undefined)
             (if us = ''ustar'' then Str grp else Undefined))
        = Some (Continue off' n' g' fs')"
proof -
  have "name0 \<noteq> []" using run unfolding parseTar_body_eq[OF r] by (auto split: if_splits)
  then show ?thesis
    using run ty unfolding parseTar_body_eq[OF r] ustar_fields_eq[OF u]
    by (simp split: if_splits)
qed

subsection \<open>A header inside a buffer\<close>

lemma readString_inside:
  assumes "0 \<le> j" "0 \<le> n" "j + n \<le> int (length H)"
  shows "readString (pre @ H @ rest) (int (length pre) + j) (Some n) =
         Some (TextDecoder_decode (takeWhile (\<lambda>c. c \<noteq> CHR 0x00) (field H (nat j) (nat n))))"
proof -
  have "take (nat n) (drop (nat (int (length pre) + j)) (pre @ H @ rest)) = take (nat n) (drop (nat j) H)"
    using assms by (simp add: nat_add_distrib)
  then show ?thesis
    using assms by (simp add: readString_def Uint8Array_def field_def)
qed

lemma readString_inside0:
  assumes "0 \<le> n" "n \<le> int (length H)"
  shows "readString (pre @ H @ rest) (int (length pre)) (Some n) =
         Some (TextDecoder_decode (takeWhile (\<lambda>c. c \<noteq> CHR 0x00) (field H 0 (nat n))))"
  using readString_inside[of 0 n H pre rest] assms by simp

lemma readNumber_inside:
  assumes "0 \<le> j" "j + int n \<le> int (length H)"
  shows "readNumber (pre @ H @ rest) (int (length pre) + j) n =
         Some (parseInt (concat (map fromCodePoint (field H (nat j) n))) 8)"
proof -
  have "take n (drop (nat (int (length pre) + j)) (pre @ H @ rest)) = take n (drop (nat j) H)"
    using assms by (simp add: nat_add_distrib)
  then show ?thesis
    using assms by (simp add: readNumber_def Uint8Array_def field_def)
qed

lemma fromCodePoint_ascii:
  "\<forall>c \<in> set s. (of_char c :: nat) < 128 \<Longrightarrow> concat (map fromCodePoint s) = s"
  by (induction s) (simp_all add: fromCodePoint_def)

lemma header_reads_block:
  fixes H :: bytes
  assumes H: "length H = 512"
  shows "readString (pre @ H @ rest) (int (length pre)) (Some 100) = Some (field_string H 0 100)"
    "readString (pre @ H @ rest) (int (length pre) + 100) (Some 8) = Some (field_string H 100 8)"
    "readString (pre @ H @ rest) (int (length pre) + 108) (Some 8) = Some (field_string H 108 8)"
    "readString (pre @ H @ rest) (int (length pre) + 116) (Some 8) = Some (field_string H 116 8)"
    "readNumber (pre @ H @ rest) (int (length pre) + 124) 12 = Some (field_number H 124 12)"
    "readNumber (pre @ H @ rest) (int (length pre) + 136) 12 = Some (field_number H 136 12)"
    "readString (pre @ H @ rest) (int (length pre) + 156) (Some 1) = Some (field_string H 156 1)"
    "readString (pre @ H @ rest) (int (length pre) + 257) (Some 6) = Some (field_string H 257 6)"
    "readString (pre @ H @ rest) (int (length pre) + 265) (Some 32) = Some (field_string H 265 32)"
    "readString (pre @ H @ rest) (int (length pre) + 297) (Some 32) = Some (field_string H 297 32)"
    "readString (pre @ H @ rest) (int (length pre) + 345) (Some 155) = Some (field_string H 345 155)"
  by (simp_all add: readString_inside readString_inside0 readNumber_inside H field_string_def field_number_def)

lemma payload_view:
  assumes "length H = 512"
  shows "Uint8Array (pre @ H @ d @ rest) (int (length pre) + 512) (Some (int (length d))) = Some d"
  using assms by (simp add: Uint8Array_def nat_add_distrib)

lemma parseTar_body_end:
  assumes "100 \<le> length rest" "hd rest = CHR 0x00"
  shows "parseTar_body (pre @ rest) opts (int (length pre)) nxt glob acc = Some (Break acc)"
proof -
  obtain c cs where rest: "rest = c # cs" using assms(1) by (cases rest) auto
  have "take 100 rest = CHR 0x00 # take 99 cs" using assms(2) rest by simp
  then have "readString (pre @ rest) (int (length pre)) (Some 100) = Some []"
    using assms(1) by (simp add: readString_def Uint8Array_def)
  then show ?thesis by (simp add: parseTar_body_def)
qed

subsection \<open>The loop\<close>

lemma parseTar_loop_step:
  assumes "offset < int (length buffer) - 512"
      and "parseTar_body buffer opts offset nxt glob files = Some (Continue off' n' g' fs')"
  shows "parseTar_loop buffer opts (Some offset) nxt glob files =
         parseTar_loop buffer opts off' n' g' fs'"
  by (subst parseTar_loop.simps) (simp add: assms)

lemma parseTar_loop_break:
  assumes "offset < int (length buffer) - 512"
      and "parseTar_body buffer opts offset nxt glob files = Some (Break fs)"
  shows "parseTar_loop buffer opts (Some offset) nxt glob files = Some (Some fs)"
  by (subst parseTar_loop.simps) (simp add: assms)

lemma parseTar_loop_end:
  assumes "\<not> offset < int (length buffer) - 512"
  shows "parseTar_loop buffer opts (Some offset) nxt glob files = Some (Some files)"
  by (subst parseTar_loop.simps) (simp add: assms)

lemma extended_header_exact:
  assumes "extended_header buffer offset seek sz type glob files = Some (Continue off' n' g' fs')"
  shows "fs' = files \<and>
         (\<exists>view. Uint8Array buffer (offset + 512) sz = Some view \<and>
            (if type = ''extendedHeader'' then g' = glob \<and> n' = Some (parseExtendedHeaders view)
             else n' = None \<and> g' = Some (spread glob ++ parseExtendedHeaders view)))"
  using assms unfolding extended_header_def
  by (auto simp: Let_def split: if_splits Option.bind_splits)

lemma gnu_long_name_exact:
  assumes "gnu_long_name buffer offset seek sz glob files = Some (Continue off' n' g' fs')"
  shows "fs' = files \<and> g' = glob \<and>
         (\<exists>p. readString buffer (offset + 512) sz = Some p \<and> n' = Some [''path'' \<mapsto> Str p])"
  using assms unfolding gnu_long_name_def
  by (auto simp: Let_def split: if_splits Option.bind_splits)

lemma resolve_type_values:
  "resolve_type ''x'' = ''extendedHeader''" "resolve_type ''g'' = ''globalExtendedHeader''"
  "resolve_type ''L'' = ''gnuLongFileName''" "resolve_type ''N'' = ''gnuOldLongFileName''"
  "resolve_type ''K'' = ''gnuLongLinkName''" "resolve_type ''0'' = ''file''"
  by (simp_all add: resolve_type_def tarItemTypeMap_def tarItemTypes_def)

subsection \<open>The examples, evaluated\<close>

lemma example_entry_length: "length example_entry = 1536"
  by (simp add: example_entry_def)

lemma example_entry_reads:
  "readString example_entry 0 (Some 100) = Some ''/c.txt''"
  "readString example_entry 100 (Some 8) = Some ''0000664''"
  "readString example_entry 108 (Some 8) = Some ''0001750''"
  "readString example_entry 116 (Some 8) = Some ''0001750''"
  "readString example_entry 156 (Some 1) = Some []"
  "readString example_entry 257 (Some 6) = Some ''ustar''"
  "readString example_entry 265 (Some 32) = Some []"
  "readString example_entry 297 (Some 32) = Some []"
  "readString example_entry 345 (Some 155) = Some ''a/b/''"
  by (simp_all add: readString_def Uint8Array_def example_entry_def TextDecoder_ascii)

lemma example_entry_numbers:
  "readNumber example_entry 124 12 = Some (Some 3)"
  "readNumber example_entry 136 12 = Some (Some 0)"
proof -
  have "parseInt [CHR ''0'', CHR ''0'', CHR ''0'', CHR ''0'', CHR ''0'', CHR ''0'',
          CHR ''0'', CHR ''0'', CHR ''0'', CHR ''0'', CHR ''3'', CHR 0x00] 8 = Some 3"
    by code_simp
  then show "readNumber example_entry 124 12 = Some (Some 3)"
    by (simp add: readNumber_def Uint8Array_def example_entry_def fromCodePoint_def)
  have "parseInt [CHR ''0'', CHR ''0'', CHR ''0'', CHR ''0'', CHR ''0'', CHR ''0'',
          CHR ''0'', CHR ''0'', CHR ''0'', CHR ''0'', CHR ''0'', CHR 0x00] 8 = Some 0"
    by code_simp
  then show "readNumber example_entry 136 12 = Some (Some 0)"
    by (simp add: readNumber_def Uint8Array_def example_entry_def fromCodePoint_def)
qed

lemma example_values:
  "parseInt ''0001750'' 0 = Some 1750"
  "parseInt ''0001750'' 8 = Some 1000"
  "trim ''0000664'' = ''0000664''"
  by code_simp+

lemma example_payload: "Uint8Array example_entry 512 (Some 3) = Some ''abc''"
  by (simp add: Uint8Array_def example_entry_def)

lemma seek3: "seek_of (Some 3) = Some 1024" "seek_of (Some 10) = Some 1024"
  by (simp_all add: seek_of_nonneg)

lemma example_entry_body:
  "parseTar_body example_entry no_opts 0 nxt glob files =
     Some (Continue (Some 1024) None glob
       (files @ [(make_meta (join_prefix ''a/b/'' (override_name nxt ''/c.txt'')) ''file'' (Some 3)
                    glob nxt ''0000664'' (Some 1750) (Some 1750) (Some 0) (Str []) (Str []))
                 \<lparr>item_data := Some ''abc''\<rparr>]))"
proof -
  have r: "readString example_entry 0 (Some 100) = Some ''/c.txt''"
    "readString example_entry (0 + 100) (Some 8) = Some ''0000664''"
    "readString example_entry (0 + 108) (Some 8) = Some ''0001750''"
    "readString example_entry (0 + 116) (Some 8) = Some ''0001750''"
    "readNumber example_entry (0 + 124) 12 = Some (Some 3)"
    "readNumber example_entry (0 + 136) 12 = Some (Some 0)"
    "readString example_entry (0 + 156) (Some 1) = Some []"
    by (simp_all add: example_entry_reads example_entry_numbers example_values)
  have u: "readString example_entry (0 + 257) (Some 6) = Some ''ustar''"
    "readString example_entry (0 + 265) (Some 32) = Some []"
    "readString example_entry (0 + 297) (Some 32) = Some []"
    "readString example_entry (0 + 345) (Some 155) = Some ''a/b/''"
    by (simp_all add: example_entry_reads)
  have ty: "resolve_type [] = ''file''"
    by (simp add: resolve_type_def tarItemTypeMap_def tarItemTypes_def)
  show ?thesis
    unfolding parseTar_body_eq[OF r] ustar_fields_eq[OF u] ty
    by (simp add: emit_def no_opts_def seek3 example_values example_payload plus_number_def)
qed


lemma length_example_header:
  "length name \<le> 100 \<Longrightarrow> length sz = 11 \<Longrightarrow> length t = 1 \<Longrightarrow> length (example_header name sz t) = 512"
  by (simp add: example_header_def)

lemma takeWhile_plain: "plain s \<Longrightarrow> takeWhile (\<lambda>c. c \<noteq> CHR 0x00) (s @ CHR 0x00 # r) = s"
  by (induction s) (simp_all add: plain_def)

lemma takeWhile_plain_all: "plain s \<Longrightarrow> takeWhile (\<lambda>c. c \<noteq> CHR 0x00) s = s"
  by (induction s) (simp_all add: plain_def)

lemma decode_plain: "plain s \<Longrightarrow> TextDecoder_decode s = s"
  by (rule TextDecoder_ascii) (simp add: plain_def)

lemma zero_values:
  "parseInt (''00000000000'' @ [CHR 0x00]) 8 = Some 0"
  by code_simp

lemma example_header_fields:
  assumes n: "length name \<le> 100" "plain name"
      and s: "length sz = 11" "\<forall>c \<in> set sz. (of_char c :: nat) < 128"
      and t: "length t = 1" "plain t"
  shows "field_string (example_header name sz t) 0 100 = name"
    and "field_string (example_header name sz t) 100 8 = ''0000664''"
    and "field_string (example_header name sz t) 108 8 = ''0001750''"
    and "field_string (example_header name sz t) 116 8 = ''0001750''"
    and "field_number (example_header name sz t) 124 12 = parseInt (sz @ [CHR 0x00]) 8"
    and "field_number (example_header name sz t) 136 12 = Some 0"
    and "field_string (example_header name sz t) 156 1 = t"
    and "field_string (example_header name sz t) 257 6 = ''ustar''"
    and "field_string (example_header name sz t) 265 32 = []"
    and "field_string (example_header name sz t) 297 32 = []"
    and "field_string (example_header name sz t) 345 155 = []"
proof -
  define N where "N = name @ replicate (100 - length name) CHR 0x00"
  define R where "R = ''0000664'' @ [CHR 0x00]
     @ ''0001750'' @ [CHR 0x00] @ ''0001750'' @ [CHR 0x00] @ sz @ [CHR 0x00]
     @ ''00000000000'' @ [CHR 0x00] @ ''        '' @ t @ replicate 100 CHR 0x00
     @ ''ustar'' @ [CHR 0x00] @ ''00'' @ replicate 247 CHR 0x00"
  have H: "example_header name sz t = N @ R" by (simp add: example_header_def N_def R_def)
  have lN: "length N = 100" using n(1) by (simp add: N_def)
  have f0: "field (N @ R) 0 100 = N" by (simp add: field_def lN)
  have fR: "field (N @ R) (100 + j) k = take k (drop j R)" for j k
    by (simp add: field_def lN)
  have "takeWhile (\<lambda>c. c \<noteq> CHR 0x00) N = name"
  proof (cases "100 - length name")
    case 0
    then show ?thesis using n(2) by (simp add: N_def takeWhile_plain_all)
  next
    case (Suc k)
    then show ?thesis using n(2) by (simp add: N_def takeWhile_plain)
  qed
  then show "field_string (example_header name sz t) 0 100 = name"
    unfolding H field_string_def f0 using n(2) by (simp add: decode_plain)
  show "field_string (example_header name sz t) 100 8 = ''0000664''"
    unfolding H field_string_def using fR[of 0 8] by (simp add: R_def TextDecoder_ascii)
  show "field_string (example_header name sz t) 108 8 = ''0001750''"
    unfolding H field_string_def using fR[of 8 8] by (simp add: R_def TextDecoder_ascii)
  show "field_string (example_header name sz t) 116 8 = ''0001750''"
    unfolding H field_string_def using fR[of 16 8] by (simp add: R_def TextDecoder_ascii)
  have "take 12 (drop 24 R) = sz @ [CHR 0x00]" using s(1) by (simp add: R_def)
  then show "field_number (example_header name sz t) 124 12 = parseInt (sz @ [CHR 0x00]) 8"
    unfolding H field_number_def using fR[of 24 12] s(2) by (simp add: fromCodePoint_ascii fromCodePoint_def)
  have "take 12 (drop 36 R) = ''00000000000'' @ [CHR 0x00]" using s(1) by (simp add: R_def)
  then show "field_number (example_header name sz t) 136 12 = Some 0"
    unfolding H field_number_def using fR[of 36 12] zero_values by (simp add: fromCodePoint_def)
  obtain c where c: "t = [c]" using t(1) by (cases t) auto
  have "take 1 (drop 56 R) = t" using s(1) c by (simp add: R_def)
  then show "field_string (example_header name sz t) 156 1 = t"
    unfolding H field_string_def using fR[of 56 1] t(2) by (simp add: takeWhile_plain_all decode_plain)
  have "take 6 (drop 157 R) = ''ustar'' @ [CHR 0x00]" using s(1) c by (simp add: R_def)
  then show "field_string (example_header name sz t) 257 6 = ''ustar''"
    unfolding H field_string_def using fR[of 157 6] by (simp add: TextDecoder_ascii)
  have "take 32 (drop 165 R) = replicate 32 CHR 0x00" using s(1) c by (simp add: R_def)
  then show "field_string (example_header name sz t) 265 32 = []"
    unfolding H field_string_def using fR[of 165 32] by simp
  have "take 32 (drop 197 R) = replicate 32 CHR 0x00" using s(1) c by (simp add: R_def)
  then show "field_string (example_header name sz t) 297 32 = []"
    unfolding H field_string_def using fR[of 197 32] by simp
  have "take 155 (drop 245 R) = replicate 155 CHR 0x00" using s(1) c by (simp add: R_def)
  then show "field_string (example_header name sz t) 345 155 = []"
    unfolding H field_string_def using fR[of 245 155] by simp
qed

lemma example_header_body:
  assumes n: "length name \<le> 100" "plain name" "name \<noteq> []"
      and s: "length sz = 11" "\<forall>c \<in> set sz. (of_char c :: nat) < 128"
      and t: "length t = 1" "plain t"
      and b: "buffer = pre @ example_header name sz t @ rest" "offset = int (length pre)"
      and v: "v = parseInt (sz @ [CHR 0x00]) 8"
  shows "parseTar_body buffer opts offset nxt glob files =
     (if resolve_type t = ''extendedHeader'' \<or> resolve_type t = ''globalExtendedHeader''
      then extended_header buffer offset (seek_of v) v (resolve_type t) glob files
      else if resolve_type t = ''gnuLongFileName'' \<or> resolve_type t = ''gnuOldLongFileName''
               \<or> resolve_type t = ''gnuLongLinkName''
      then gnu_long_name buffer offset (seek_of v) v glob files
      else emit buffer opts offset (seek_of v) v glob files
             (make_meta (override_name nxt name) (resolve_type t) v glob nxt ''0000664''
                (Some 1750) (Some 1750) (Some 0) (Str []) (Str [])))"
proof -
  let ?H = "example_header name sz t"
  have len: "length ?H = 512" using n(1) s(1) t(1) by (rule length_example_header)
  note f = example_header_fields[OF n(1,2) s t]
  note r = header_reads_block(1-7)[OF len, of pre rest, unfolded f, folded b v]
  note u = header_reads_block(8-11)[OF len, of pre rest, unfolded f, folded b]
  show ?thesis
    unfolding parseTar_body_eq[OF r] ustar_fields_eq[OF u]
    using n(3) by (simp add: example_values)
qed

lemma pass_extended:
  assumes n: "length name \<le> 100" "plain name" "name \<noteq> []"
      and s: "length sz = 11" "\<forall>c \<in> set sz. (of_char c :: nat) < 128"
      and t: "t = ''x'' \<or> t = ''g''"
      and b: "buffer = pre @ example_header name sz t @ d @ rest" "offset = int (length pre)"
      and v: "parseInt (sz @ [CHR 0x00]) 8 = Some (int (length d))"
  shows "parseTar_body buffer opts offset nxt glob files =
     Some (Continue (plus_number (Some offset) (seek_of (Some (int (length d)))))
             (if t = ''x'' then Some (parseExtendedHeaders d) else None)
             (if t = ''x'' then glob else Some (spread glob ++ parseExtendedHeaders d)) files)"
proof -
  have t1: "length t = 1" "plain t" using t by (auto simp: plain_def)
  have len: "length (example_header name sz t) = 512"
    using n(1) s(1) t1(1) by (rule length_example_header)
  have view: "Uint8Array buffer (offset + 512) (Some (int (length d))) = Some d"
    unfolding b by (rule payload_view[OF len])
  show ?thesis
    unfolding example_header_body[OF n s t1 b v[symmetric]]
    using t by (auto simp: resolve_type_values extended_header_def view)
qed

lemma pass_file:
  assumes n: "length name \<le> 100" "plain name" "name \<noteq> []"
      and b: "buffer = pre @ example_header name ''00000000000'' ''0'' @ rest" "offset = int (length pre)"
  shows "parseTar_body buffer no_opts offset nxt glob files =
     Some (Continue (Some (offset + 512)) None glob
             (files @ [make_meta (override_name nxt name) ''file'' (Some 0) glob nxt ''0000664''
                         (Some 1750) (Some 1750) (Some 0) (Str []) (Str [])]))"
proof -
  have v: "Some 0 = parseInt (''00000000000'' @ [CHR 0x00]) 8"
    by (simp only: zero_values)
  have sk: "seek_of (Some 0) = Some 512"
    by (simp add: seek_of_nonneg)
  show ?thesis
    by (subst example_header_body[OF n _ _ _ _ b v])
       (simp_all add: plain_def resolve_type_values emit_def no_opts_def sk plus_number_def make_meta_def)
qed

lemma pass_meta:
  assumes n: "length name \<le> 100" "plain name" "name \<noteq> []"
      and s: "length sz = 11" "\<forall>c \<in> set sz. (of_char c :: nat) < 128"
      and b: "buffer = pre @ example_header name sz ''0'' @ rest" "offset = int (length pre)"
      and v: "v = parseInt (sz @ [CHR 0x00]) 8"
  shows "parseTar_body buffer only_meta offset nxt glob files =
     Some (Continue (plus_number (Some offset) (seek_of v)) None glob
             (files @ [make_meta (override_name nxt name) ''file'' v glob nxt ''0000664''
                         (Some 1750) (Some 1750) (Some 0) (Str []) (Str [])]))"
  by (subst example_header_body[OF n s _ _ b v])
     (simp_all add: plain_def resolve_type_values emit_def only_meta_def)

lemma negative_values:
  "parseInt (''-0000000001'' @ [CHR 0x00]) 8 = Some (- 1)"
  by code_simp

lemma seek_negative: "seek_of (Some (- 1)) = Some 1024"
  by (simp add: seek_of_def trunc_div_def rem_def)

lemma length_example_negative: "length example_negative = 2560"
  by (simp add: example_negative_def length_example_header)

lemma example_records:
  "parseExtendedHeaders (''10 path=G'' @ [CHR 0x0A] @ ''13 comment=c'' @ [CHR 0x0A]) ''path'' = Some (Str ''G'')"
  "parseExtendedHeaders (''10 path=G'' @ [CHR 0x0A] @ ''13 comment=c'' @ [CHR 0x0A]) ''comment'' = Some (Str ''c'')"
  "parseExtendedHeaders (''10 path=N'' @ [CHR 0x0A] @ ''12 mode=777'' @ [CHR 0x0A]) ''path'' = Some (Str ''N'')"
  "parseExtendedHeaders (''10 path=N'' @ [CHR 0x0A] @ ''12 mode=777'' @ [CHR 0x0A]) ''comment'' = None"
  "parseExtendedHeaders (''10 path=N'' @ [CHR 0x0A] @ ''12 mode=777'' @ [CHR 0x0A]) ''mode'' = Some (Str ''777'')"
  "parseExtendedHeaders (''10 path=H'' @ [CHR 0x0A]) ''path'' = Some (Str ''H'')"
  "parseExtendedHeaders (''10 path=H'' @ [CHR 0x0A]) ''comment'' = None"
  by code_simp+

lemma example_sizes:
  "parseInt (''00000000027'' @ [CHR 0x00]) 8 = Some 23"
  "parseInt (''00000000026'' @ [CHR 0x00]) 8 = Some 22"
  "parseInt (''00000000012'' @ [CHR 0x00]) 8 = Some 10"
  by code_simp+

lemma seek_values:
  "seek_of (Some 23) = Some 1024" "seek_of (Some 22) = Some 1024" "seek_of (Some 10) = Some 1024"
  by (simp_all add: seek_of_nonneg)

lemma length_example_pax: "length example_pax = 6144"
  by (simp add: example_pax_def length_example_header)

subsection \<open>The type of an entry\<close>

text \<open>
  Claim C9. A header whose type byte is NUL is read as type code \<^verbatim>\<open>"0"\<close>: the pass through
  the body takes the way of an ordinary entry (no pending header is left, the global one is
  unchanged), and the entry it emits, always when there is no filter, has the type
  \<^verbatim>\<open>"file"\<close>, not a tag made of the NUL byte.
\<close>

theorem nul_type_is_file:
  assumes "0 \<le> offset" "offset < int (length buffer) - 512"
      and nul: "buffer ! nat (offset + 156) = CHR 0x00"
      and run: "parseTar_body buffer opts offset nxt glob files = Some (Continue off' n' g' fs')"
  shows "n' = None \<and> g' = glob \<and>
         (fs' = files \<or> (\<exists>m. fs' = files @ [m] \<and> item_type m = ''file'')) \<and>
         (filter_fn opts = None \<longrightarrow> (\<exists>m. fs' = files @ [m] \<and> item_type m = ''file''))"
proof -
  obtain name0 md u g sz mt t where r:
    "readString buffer offset (Some 100) = Some name0"
    "readString buffer (offset + 100) (Some 8) = Some md"
    "readString buffer (offset + 108) (Some 8) = Some u"
    "readString buffer (offset + 116) (Some 8) = Some g"
    "readNumber buffer (offset + 124) 12 = Some sz"
    "readNumber buffer (offset + 136) 12 = Some mt"
    "readString buffer (offset + 156) (Some 1) = Some t"
    using header_reads[OF assms(1,2)] by metis
  have "take 1 (drop (nat (offset + 156)) buffer) = [CHR 0x00]"
    using assms(1,2) nul by (simp add: take_Suc hd_drop_conv_nth)
  then have "t = []"
    using r(7) assms(1,2) by (simp add: readString_def Uint8Array_in_range)
  then have ty: "resolve_type t = ''file''"
    by (simp add: resolve_type_def tarItemTypeMap_def tarItemTypes_def)
  note eq = run[unfolded parseTar_body_eq[OF r] ty]
  obtain usr grp nm where
    e: "emit buffer opts offset (seek_of sz) sz glob files
         (make_meta nm ''file'' sz glob nxt (trim md) (parseInt u 0) (parseInt g 0) mt usr grp)
        = Some (Continue off' n' g' fs')"
    using eq by (auto split: if_splits option.splits prod.splits)
  show ?thesis
    using emit_Continue[OF e] emit_no_filter[OF e] by (auto simp: make_meta_def)
qed

theorem nul_type_is_file_witness:
  "(0::int) \<le> 0 \<and> 0 < int (length example_entry) - 512
   \<and> example_entry ! nat (0 + 156) = CHR 0x00
   \<and> (\<exists>off' n' g' m. parseTar_body example_entry no_opts 0 None None [] =
          Some (Continue off' n' g' [m]) \<and> item_type m = ''file'')"
proof -
  have nul: "example_entry ! nat (0 + 156) = CHR 0x00"
    by (simp add: example_entry_def nth_append)
  obtain M where run: "parseTar_body example_entry no_opts 0 None None [] =
      Some (Continue (Some 1024) None None ([] @ [M]))"
    using example_entry_body[of None None "[]"] by blast
  have "\<exists>m. [] @ [M] = [] @ [m] \<and> item_type m = ''file''"
    using nul_type_is_file[OF _ _ nul run] by (simp add: example_entry_length no_opts_def)
  then show ?thesis
    using run nul by (simp add: example_entry_length)
qed

subsection \<open>The USTAR prefix\<close>

text \<open>
  Claim C7. When the magic field reads \<^verbatim>\<open>"ustar"\<close> and the prefix field \<open>pre\<close> is not
  empty, the name of the emitted entry is the join of \<open>pre\<close> and the name the entry had so
  far (the name field \<open>raw\<close>, or the long name of a pending next-entry header): with a slash
  at the end of \<open>pre\<close> and at the start of the name, the name loses its slash; with exactly
  one of the two, they are concatenated; with neither, a slash is put between them.
\<close>

theorem ustar_prefix_join:
  assumes "0 \<le> offset" "offset < int (length buffer) - 512"
      and magic: "readString buffer (offset + 257) (Some 6) = Some ''ustar''"
      and pre: "readString buffer (offset + 345) (Some 155) = Some pre" "pre \<noteq> []"
      and raw: "readString buffer offset (Some 100) = Some raw"
      and run: "parseTar_body buffer opts offset nxt glob files = Some (Continue off' n' g' (files @ [m]))"
  shows "\<exists>name. (nxt = None \<longrightarrow> name = raw) \<and>
           (name = raw \<or> (\<exists>h. nxt = Some h \<and> (h ''path'' = Some (Str name) \<or> h ''linkpath'' = Some (Str name)))) \<and>
           item_name m =
             (if last pre = CHR ''/'' \<and> take 1 name = ''/'' then pre @ drop 1 name
              else if last pre = CHR ''/'' \<or> take 1 name = ''/'' then pre @ name
              else pre @ ''/'' @ name)"
proof -
  obtain name0 md u g sz mt t where r:
    "readString buffer offset (Some 100) = Some name0"
    "readString buffer (offset + 100) (Some 8) = Some md"
    "readString buffer (offset + 108) (Some 8) = Some u"
    "readString buffer (offset + 116) (Some 8) = Some g"
    "readNumber buffer (offset + 124) 12 = Some sz"
    "readNumber buffer (offset + 136) 12 = Some mt"
    "readString buffer (offset + 156) (Some 1) = Some t"
    using header_reads[OF assms(1,2)] by metis
  obtain us usr grp pre' where u:
    "readString buffer (offset + 257) (Some 6) = Some us"
    "readString buffer (offset + 265) (Some 32) = Some usr"
    "readString buffer (offset + 297) (Some 32) = Some grp"
    "readString buffer (offset + 345) (Some 155) = Some pre'"
    using ustar_reads[OF assms(1,2)] by metis
  have [simp]: "name0 = raw" "us = ''ustar''" "pre' = pre" using r u magic pre raw by auto
  define name where "name = override_name nxt raw"
  note eq = run[unfolded parseTar_body_eq[OF r] ustar_fields_eq[OF u]]
  have e: "emit buffer opts offset (seek_of sz) sz glob files
         (make_meta (join_prefix pre name) (resolve_type t) sz glob nxt (trim md) (parseInt u 0) (parseInt g 0) mt (Str usr) (Str grp))
        = Some (Continue off' n' g' (files @ [m]))"
    using eq pre(2)
    by (auto simp: name_def split: if_splits dest: extended_header_Continue gnu_long_name_Continue)
  have nm: "item_name m = join_prefix pre name"
    using emit_Continue[OF e] by (auto simp: make_meta_def)
  have 1: "nxt = None \<longrightarrow> name = raw" by (simp add: name_def override_name_def)
  have 2: "name = raw \<or> (\<exists>h. nxt = Some h \<and> (h ''path'' = Some (Str name) \<or> h ''linkpath'' = Some (Str name)))"
    by (auto simp: name_def override_name_def Let_def truthy_def split: option.splits jsval.splits if_splits)
  have 3: "join_prefix pre name = (if last pre = CHR ''/'' \<and> take 1 name = ''/'' then pre @ drop 1 name
              else if last pre = CHR ''/'' \<or> take 1 name = ''/'' then pre @ name
              else pre @ ''/'' @ name)"
    using pre(2) by (cases name) (auto simp: join_prefix_def Let_def)
  show ?thesis
    by (intro exI[of _ name] conjI 1 2) (simp only: nm 3)
qed

theorem ustar_prefix_join_witness:
  "readString example_entry (0 + 257) (Some 6) = Some ''ustar''
   \<and> readString example_entry (0 + 345) (Some 155) = Some ''a/b/''
   \<and> readString example_entry 0 (Some 100) = Some ''/c.txt''
   \<and> (\<exists>off' n' g' m. parseTar_body example_entry no_opts 0 None None [] =
          Some (Continue off' n' g' ([] @ [m])) \<and> item_name m = ''a/b/c.txt'')"
proof -
  obtain M where run: "parseTar_body example_entry no_opts 0 None None [] =
      Some (Continue (Some 1024) None None ([] @ [M]))"
    using example_entry_body[of None None "[]"] by blast
  have r: "readString example_entry (0 + 257) (Some 6) = Some ''ustar''"
    "readString example_entry (0 + 345) (Some 155) = Some ''a/b/''"
    "readString example_entry 0 (Some 100) = Some ''/c.txt''"
    by (simp_all add: example_entry_reads)
  have "item_name M = ''a/b/c.txt''"
    using ustar_prefix_join[OF _ _ r(1) r(2) _ r(3) run]
    by (simp add: example_entry_length)
  then show ?thesis
    using run r by blast
qed

subsection \<open>Extended headers\<close>

text \<open>
  Claim C5. \<^verbatim>\<open>parseTar\<close> starts its loop with no header pending and no global header.
  When a pass through the body at a header in range, entered with the pending next-entry
  header \<open>nxt\<close> and the global header \<open>glob\<close>, goes on with \<open>n'\<close> and \<open>g'\<close>, the loop
  goes on from exactly that state, and:
  \<^item> in the \<^verbatim>\<open>attrs\<close> of an emitted entry, a key other than the six explicit ones has the
    value \<open>nxt\<close> gives it, and only when \<open>nxt\<close> has none the value \<open>glob\<close> gives it; the
    keys \<^verbatim>\<open>mode\<close>, \<^verbatim>\<open>uid\<close>, \<^verbatim>\<open>gid\<close>, \<^verbatim>\<open>mtime\<close>, \<^verbatim>\<open>user\<close>, \<^verbatim>\<open>group\<close> have the values of the
    header fields whatever \<open>nxt\<close> and \<open>glob\<close> hold; after the entry no header is pending
    and \<open>glob\<close> is as before;
  \<^item> without a USTAR prefix, the name of the entry is the name field when no header is
    pending, whatever \<open>glob\<close> holds (a \<^verbatim>\<open>path\<close> key of the global header renames nothing),
    and the non-empty \<^verbatim>\<open>path\<close> of the pending header when there is one;
  \<^item> an extended header of the next entry (type \<^verbatim>\<open>x\<close>) emits nothing, leaves \<open>glob\<close> as it
    is and leaves pending exactly the records parsed from its payload;
  \<^item> a global extended header (type \<^verbatim>\<open>g\<close>) emits nothing, leaves no header pending and
    leaves as global header the records of its payload merged over \<open>glob\<close>;
  \<^item> a GNU long name (\<^verbatim>\<open>L\<close>, \<^verbatim>\<open>N\<close>, \<^verbatim>\<open>K\<close>) leaves pending the one key \<^verbatim>\<open>path\<close> with the
    string of its payload;
  \<^item> every other header leaves no header pending, also when the filter rejects it.
\<close>

theorem attrs_precedence:
  assumes "0 \<le> offset" "offset < int (length buffer) - 512"
      and run: "parseTar_body buffer opts offset nxt glob files = Some (Continue off' n' g' fs')"
  shows "parseTar buffer opts = parseTar_loop buffer opts (Some 0) None None []
         \<and> parseTar_loop buffer opts (Some offset) nxt glob files =
             parseTar_loop buffer opts off' n' g' fs'
         \<and> (\<forall>m. fs' = files @ [m] \<longrightarrow>
            n' = None \<and> g' = glob \<and>
            (\<forall>k. k \<notin> {''mode'', ''uid'', ''gid'', ''mtime'', ''user'', ''group''} \<longrightarrow>
                 item_attrs m k = (case spread nxt k of Some v \<Rightarrow> Some v | None \<Rightarrow> spread glob k)) \<and>
            item_attrs m ''mode'' = map_option (\<lambda>s. Str (trim s)) (readString buffer (offset + 100) (Some 8)) \<and>
            item_attrs m ''uid'' = map_option (\<lambda>s. Num (parseInt s 0)) (readString buffer (offset + 108) (Some 8)) \<and>
            item_attrs m ''gid'' = map_option (\<lambda>s. Num (parseInt s 0)) (readString buffer (offset + 116) (Some 8)) \<and>
            item_attrs m ''mtime'' = map_option Num (readNumber buffer (offset + 136) 12) \<and>
            item_attrs m ''user'' =
              (if readString buffer (offset + 257) (Some 6) = Some ''ustar''
               then map_option Str (readString buffer (offset + 265) (Some 32)) else Some Undefined) \<and>
            item_attrs m ''group'' =
              (if readString buffer (offset + 257) (Some 6) = Some ''ustar''
               then map_option Str (readString buffer (offset + 297) (Some 32)) else Some Undefined) \<and>
            (readString buffer (offset + 257) (Some 6) \<noteq> Some ''ustar''
               \<or> readString buffer (offset + 345) (Some 155) = Some []
             \<longrightarrow> (nxt = None \<longrightarrow> readString buffer offset (Some 100) = Some (item_name m))
                \<and> (\<forall>h p. nxt = Some h \<and> h ''path'' = Some (Str p) \<and> p \<noteq> [] \<longrightarrow> item_name m = p)))
         \<and> (readString buffer (offset + 156) (Some 1) = Some ''x'' \<longrightarrow>
               fs' = files \<and> g' = glob \<and>
               (\<exists>sz view. readNumber buffer (offset + 124) 12 = Some sz
                  \<and> Uint8Array buffer (offset + 512) sz = Some view
                  \<and> n' = Some (parseExtendedHeaders view)))
         \<and> (readString buffer (offset + 156) (Some 1) = Some ''g'' \<longrightarrow>
               fs' = files \<and> n' = None \<and>
               (\<exists>sz view. readNumber buffer (offset + 124) 12 = Some sz
                  \<and> Uint8Array buffer (offset + 512) sz = Some view
                  \<and> g' = Some (spread glob ++ parseExtendedHeaders view)))
         \<and> (readString buffer (offset + 156) (Some 1) \<in> {Some ''L'', Some ''N'', Some ''K''} \<longrightarrow>
               fs' = files \<and> g' = glob \<and>
               (\<exists>sz p. readNumber buffer (offset + 124) 12 = Some sz
                  \<and> readString buffer (offset + 512) sz = Some p
                  \<and> n' = Some [''path'' \<mapsto> Str p]))
         \<and> (readString buffer (offset + 156) (Some 1) \<notin> {Some ''x'', Some ''L'', Some ''N'', Some ''K''} \<longrightarrow>
               n' = None)"
proof -
  obtain name0 md u g sz mt t where r:
    "readString buffer offset (Some 100) = Some name0"
    "readString buffer (offset + 100) (Some 8) = Some md"
    "readString buffer (offset + 108) (Some 8) = Some u"
    "readString buffer (offset + 116) (Some 8) = Some g"
    "readNumber buffer (offset + 124) 12 = Some sz"
    "readNumber buffer (offset + 136) 12 = Some mt"
    "readString buffer (offset + 156) (Some 1) = Some t"
    using header_reads[OF assms(1,2)] by metis
  obtain us usr grp pre where u:
    "readString buffer (offset + 257) (Some 6) = Some us"
    "readString buffer (offset + 265) (Some 32) = Some usr"
    "readString buffer (offset + 297) (Some 32) = Some grp"
    "readString buffer (offset + 345) (Some 155) = Some pre"
    using ustar_reads[OF assms(1,2)] by metis
  define meta where "meta = make_meta
             (if us = ''ustar'' \<and> pre \<noteq> [] then join_prefix pre (override_name nxt name0)
              else override_name nxt name0)
             (resolve_type t) sz glob nxt (trim md) (parseInt u 0) (parseInt g 0) mt
             (if us = ''ustar'' then Str usr else Undefined)
             (if us = ''ustar'' then Str grp else Undefined)"
  have P: "parseTar buffer opts = parseTar_loop buffer opts (Some 0) None None []"
    by (simp add: parseTar_def)
  have T: "parseTar_loop buffer opts (Some offset) nxt glob files =
             parseTar_loop buffer opts off' n' g' fs'"
    using assms(2) run by (rule parseTar_loop_step)
  have ne: "name0 \<noteq> []" using run unfolding parseTar_body_eq[OF r] by (auto split: if_splits)
  have A: "n' = None \<and> g' = glob \<and>
            (\<forall>k. k \<notin> {''mode'', ''uid'', ''gid'', ''mtime'', ''user'', ''group''} \<longrightarrow>
                 item_attrs m k = (case spread nxt k of Some v \<Rightarrow> Some v | None \<Rightarrow> spread glob k)) \<and>
            item_attrs m ''mode'' = map_option (\<lambda>s. Str (trim s)) (Some md) \<and>
            item_attrs m ''uid'' = map_option (\<lambda>s. Num (parseInt s 0)) (Some u) \<and>
            item_attrs m ''gid'' = map_option (\<lambda>s. Num (parseInt s 0)) (Some g) \<and>
            item_attrs m ''mtime'' = map_option Num (Some mt) \<and>
            item_attrs m ''user'' =
              (if Some us = Some ''ustar'' then map_option Str (Some usr) else Some Undefined) \<and>
            item_attrs m ''group'' =
              (if Some us = Some ''ustar'' then map_option Str (Some grp) else Some Undefined) \<and>
            (Some us \<noteq> Some ''ustar'' \<or> Some pre = Some []
             \<longrightarrow> (nxt = None \<longrightarrow> Some name0 = Some (item_name m))
                \<and> (\<forall>h p. nxt = Some h \<and> h ''path'' = Some (Str p) \<and> p \<noteq> [] \<longrightarrow> item_name m = p))"
    if fs: "fs' = files @ [m]" for m
  proof -
    have "resolve_type t \<notin> {''extendedHeader'', ''globalExtendedHeader'', ''gnuLongFileName'', ''gnuOldLongFileName'', ''gnuLongLinkName''}"
      using body_special[OF r run] fs by auto
    from body_regular[OF r u run this]
    have e: "emit buffer opts offset (seek_of sz) sz glob files meta = Some (Continue off' n' g' fs')"
      by (simp add: meta_def)
    have m: "item_name m = item_name meta" "item_attrs m = item_attrs meta" "n' = None" "g' = glob"
      using emit_Continue[OF e] fs by auto
    have 1: "\<forall>k. k \<notin> {''mode'', ''uid'', ''gid'', ''mtime'', ''user'', ''group''} \<longrightarrow>
                 item_attrs meta k = (case spread nxt k of Some v \<Rightarrow> Some v | None \<Rightarrow> spread glob k)"
      by (auto simp: meta_def make_meta_def map_add_def split: option.splits)
    have 2: "item_attrs meta ''mode'' = map_option (\<lambda>s. Str (trim s)) (Some md)"
       "item_attrs meta ''uid'' = map_option (\<lambda>s. Num (parseInt s 0)) (Some u)"
       "item_attrs meta ''gid'' = map_option (\<lambda>s. Num (parseInt s 0)) (Some g)"
       "item_attrs meta ''mtime'' = map_option Num (Some mt)"
       "item_attrs meta ''user'' =
          (if Some us = Some ''ustar'' then map_option Str (Some usr) else Some Undefined)"
       "item_attrs meta ''group'' =
          (if Some us = Some ''ustar'' then map_option Str (Some grp) else Some Undefined)"
      by (simp_all add: meta_def make_meta_def)
    have 3: "Some us \<noteq> Some ''ustar'' \<or> Some pre = Some []
             \<longrightarrow> (nxt = None \<longrightarrow> Some name0 = Some (item_name meta))
                \<and> (\<forall>h p. nxt = Some h \<and> h ''path'' = Some (Str p) \<and> p \<noteq> [] \<longrightarrow> item_name meta = p)"
      by (auto simp: meta_def make_meta_def override_name_def truthy_def)
    show ?thesis unfolding m by (intro conjI 1 2 3 refl)
  qed
  have len: "length t \<le> 1 \<or> t = REPLACEMENT" using r(7) by (rule type_read)
  have X: "fs' = files \<and> g' = glob \<and>
               (\<exists>view. Uint8Array buffer (offset + 512) sz = Some view
                  \<and> n' = Some (parseExtendedHeaders view))" if "t = ''x''"
  proof -
    have "extended_header buffer offset (seek_of sz) sz ''extendedHeader'' glob files =
          Some (Continue off' n' g' fs')"
      using run ne unfolding parseTar_body_eq[OF r] that resolve_type_values by simp
    from extended_header_exact[OF this] show ?thesis by auto
  qed
  have G: "fs' = files \<and> n' = None \<and>
               (\<exists>view. Uint8Array buffer (offset + 512) sz = Some view
                  \<and> g' = Some (spread glob ++ parseExtendedHeaders view))" if "t = ''g''"
  proof -
    have "extended_header buffer offset (seek_of sz) sz ''globalExtendedHeader'' glob files =
          Some (Continue off' n' g' fs')"
      using run ne unfolding parseTar_body_eq[OF r] that resolve_type_values by simp
    from extended_header_exact[OF this] show ?thesis by auto
  qed
  have L: "fs' = files \<and> g' = glob \<and>
               (\<exists>p. readString buffer (offset + 512) sz = Some p
                  \<and> n' = Some [''path'' \<mapsto> Str p])" if "t \<in> {''L'', ''N'', ''K''}"
  proof -
    have "gnu_long_name buffer offset (seek_of sz) sz glob files = Some (Continue off' n' g' fs')"
      using run ne that unfolding parseTar_body_eq[OF r] by (auto simp: resolve_type_values)
    from gnu_long_name_exact[OF this] show ?thesis by auto
  qed
  have C: "n' = None" if "t \<notin> {''x'', ''L'', ''N'', ''K''}"
  proof (cases "resolve_type t = ''globalExtendedHeader''")
    case True
    then show ?thesis
      using run unfolding parseTar_body_eq[OF r]
      by (auto split: if_splits dest!: extended_header_Continue)
  next
    case False
    have "resolve_type t \<notin> {''extendedHeader'', ''globalExtendedHeader'', ''gnuLongFileName'', ''gnuOldLongFileName'', ''gnuLongLinkName''}"
      using that False resolve_type_special[OF len] by simp
    from body_regular[OF r u run this] show ?thesis
      by (rule emit_Continue[THEN conjunct2, THEN conjunct1])
  qed
  have X': "Some t = Some ''x'' \<longrightarrow>
               fs' = files \<and> g' = glob \<and>
               (\<exists>sz' view. Some sz = Some sz'
                  \<and> Uint8Array buffer (offset + 512) sz' = Some view
                  \<and> n' = Some (parseExtendedHeaders view))"
    using X by simp
  have G': "Some t = Some ''g'' \<longrightarrow>
               fs' = files \<and> n' = None \<and>
               (\<exists>sz' view. Some sz = Some sz'
                  \<and> Uint8Array buffer (offset + 512) sz' = Some view
                  \<and> g' = Some (spread glob ++ parseExtendedHeaders view))"
    using G by simp
  have L': "Some t \<in> {Some ''L'', Some ''N'', Some ''K''} \<longrightarrow>
               fs' = files \<and> g' = glob \<and>
               (\<exists>sz' p. Some sz = Some sz'
                  \<and> readString buffer (offset + 512) sz' = Some p
                  \<and> n' = Some [''path'' \<mapsto> Str p])"
    using L by simp
  have C': "Some t \<notin> {Some ''x'', Some ''L'', Some ''N'', Some ''K''} \<longrightarrow> n' = None"
    using C by simp
  show ?thesis
    unfolding r u by (intro conjI P T allI impI A X' G' L' C')
qed

theorem attrs_precedence_witness:
  "map_option (map_option (map item_name)) (parseTar example_pax no_opts) = Some (Some [''N'', ''R2''])
   \<and> map_option (map_option (map (\<lambda>m. item_attrs m ''path''))) (parseTar example_pax no_opts)
       = Some (Some [Some (Str ''N''), Some (Str ''H'')])
   \<and> map_option (map_option (map (\<lambda>m. item_attrs m ''comment''))) (parseTar example_pax no_opts)
       = Some (Some [Some (Str ''c''), Some (Str ''c'')])
   \<and> map_option (map_option (map (\<lambda>m. item_attrs m ''mode''))) (parseTar example_pax no_opts)
       = Some (Some [Some (Str ''0000664''), Some (Str ''0000664'')])"
proof -
  let ?hg1 = "example_header ''g'' ''00000000027'' ''g''"
  let ?dg1 = "''10 path=G'' @ [CHR 0x0A] @ ''13 comment=c'' @ [CHR 0x0A]"
  let ?hx1 = "example_header ''x'' ''00000000026'' ''x''"
  let ?dx1 = "''10 path=N'' @ [CHR 0x0A] @ ''12 mode=777'' @ [CHR 0x0A]"
  let ?hr1 = "example_header ''R1'' ''00000000000'' ''0''"
  let ?hx2 = "example_header ''x'' ''00000000012'' ''x''"
  let ?dx2 = "''10 path=P'' @ [CHR 0x0A]"
  let ?hg2 = "example_header ''g'' ''00000000012'' ''g''"
  let ?dg2 = "''10 path=H'' @ [CHR 0x0A]"
  let ?hr2 = "example_header ''R2'' ''00000000000'' ''0''"
  let ?end = "replicate 1024 CHR 0x00"
  let ?p1 = "[] :: bytes"
  let ?p2 = "?hg1 @ ?dg1 @ replicate 489 CHR 0x00"
  let ?p3 = "?p2 @ ?hx1 @ ?dx1 @ replicate 490 CHR 0x00"
  let ?p4 = "?p3 @ ?hr1"
  let ?p5 = "?p4 @ ?hx2 @ ?dx2 @ replicate 502 CHR 0x00"
  let ?p6 = "?p5 @ ?hg2 @ ?dg2 @ replicate 502 CHR 0x00"
  let ?p7 = "?p6 @ ?hr2"
  let ?G1 = "parseExtendedHeaders ?dg1"
  let ?X1 = "parseExtendedHeaders ?dx1"
  let ?X2 = "parseExtendedHeaders ?dx2"
  let ?G2 = "?G1 ++ parseExtendedHeaders ?dg2"
  let ?m1 = "make_meta (override_name (Some ?X1) ''R1'') ''file'' (Some 0) (Some ?G1) (Some ?X1)
               ''0000664'' (Some 1750) (Some 1750) (Some 0) (Str []) (Str [])"
  let ?m2 = "make_meta (override_name None ''R2'') ''file'' (Some 0) (Some ?G2) None
               ''0000664'' (Some 1750) (Some 1750) (Some 0) (Str []) (Str [])"
  note len = length_example_pax
  have b1: "example_pax = ?p1 @ ?hg1 @ ?dg1 @ (replicate 489 CHR 0x00 @ ?hx1 @ ?dx1 @ replicate 490 CHR 0x00 @ ?hr1
               @ ?hx2 @ ?dx2 @ replicate 502 CHR 0x00 @ ?hg2 @ ?dg2 @ replicate 502 CHR 0x00 @ ?hr2 @ ?end)"
    and b2: "example_pax = ?p2 @ ?hx1 @ ?dx1 @ (replicate 490 CHR 0x00 @ ?hr1
               @ ?hx2 @ ?dx2 @ replicate 502 CHR 0x00 @ ?hg2 @ ?dg2 @ replicate 502 CHR 0x00 @ ?hr2 @ ?end)"
    and b3: "example_pax = ?p3 @ ?hr1
               @ (?hx2 @ ?dx2 @ replicate 502 CHR 0x00 @ ?hg2 @ ?dg2 @ replicate 502 CHR 0x00 @ ?hr2 @ ?end)"
    and b4: "example_pax = ?p4 @ ?hx2 @ ?dx2 @ (replicate 502 CHR 0x00 @ ?hg2 @ ?dg2 @ replicate 502 CHR 0x00 @ ?hr2 @ ?end)"
    and b5: "example_pax = ?p5 @ ?hg2 @ ?dg2 @ (replicate 502 CHR 0x00 @ ?hr2 @ ?end)"
    and b6: "example_pax = ?p6 @ ?hr2 @ ?end"
    and b7: "example_pax = ?p7 @ ?end"
    by (simp_all add: example_pax_def)
  have o: "0 = int (length ?p1)" "1024 = int (length ?p2)" "2048 = int (length ?p3)"
    "2560 = int (length ?p4)" "3584 = int (length ?p5)" "4608 = int (length ?p6)"
    "5120 = int (length ?p7)"
    by (simp_all add: length_example_header)
  have r1: "parseTar_body example_pax no_opts 0 None None [] =
      Some (Continue (Some 1024) None (Some ?G1) [])"
    by (subst pass_extended[OF _ _ _ _ _ _ b1 o(1)])
       (simp_all add: plain_def example_sizes[simplified] seek_values plus_number_def spread_def)
  have r2: "parseTar_body example_pax no_opts 1024 None (Some ?G1) [] =
      Some (Continue (Some 2048) (Some ?X1) (Some ?G1) [])"
    by (subst pass_extended[OF _ _ _ _ _ _ b2 o(2)])
       (simp_all add: plain_def example_sizes[simplified] seek_values plus_number_def spread_def)
  have r3: "parseTar_body example_pax no_opts 2048 (Some ?X1) (Some ?G1) [] =
      Some (Continue (Some 2560) None (Some ?G1) ([] @ [?m1]))"
    by (subst pass_file[OF _ _ _ b3 o(3)]) (simp_all add: plain_def)
  have r4: "parseTar_body example_pax no_opts 2560 None (Some ?G1) [?m1] =
      Some (Continue (Some 3584) (Some ?X2) (Some ?G1) [?m1])"
    by (subst pass_extended[OF _ _ _ _ _ _ b4 o(4)])
       (simp_all add: plain_def example_sizes[simplified] seek_values plus_number_def spread_def)
  have r5: "parseTar_body example_pax no_opts 3584 (Some ?X2) (Some ?G1) [?m1] =
      Some (Continue (Some 4608) None (Some ?G2) [?m1])"
    by (subst pass_extended[OF _ _ _ _ _ _ b5 o(5)])
       (simp_all add: plain_def example_sizes[simplified] seek_values plus_number_def spread_def)
  have r6: "parseTar_body example_pax no_opts 4608 None (Some ?G2) [?m1] =
      Some (Continue (Some 5120) None (Some ?G2) ([?m1] @ [?m2]))"
    by (subst pass_file[OF _ _ _ b6 o(6)]) (simp_all add: plain_def)
  have r7: "parseTar_body example_pax no_opts 5120 None (Some ?G2) [?m1, ?m2] = Some (Break [?m1, ?m2])"
    unfolding b7 o(7) by (rule parseTar_body_end) simp_all
  have "parseTar example_pax no_opts = parseTar_loop example_pax no_opts (Some 0) None None []"
    using attrs_precedence[OF _ _ r1] by (simp add: len)
  also have "\<dots> = parseTar_loop example_pax no_opts (Some 1024) None (Some ?G1) []"
    using attrs_precedence[OF _ _ r1] by (simp add: len)
  also have "\<dots> = parseTar_loop example_pax no_opts (Some 2048) (Some ?X1) (Some ?G1) []"
    using attrs_precedence[OF _ _ r2] by (simp add: len)
  also have "\<dots> = parseTar_loop example_pax no_opts (Some 2560) None (Some ?G1) [?m1]"
    using attrs_precedence[OF _ _ r3] by (simp add: len)
  also have "\<dots> = parseTar_loop example_pax no_opts (Some 3584) (Some ?X2) (Some ?G1) [?m1]"
    using attrs_precedence[OF _ _ r4] by (simp add: len)
  also have "\<dots> = parseTar_loop example_pax no_opts (Some 4608) None (Some ?G2) [?m1]"
    using attrs_precedence[OF _ _ r5] by (simp add: len)
  also have "\<dots> = parseTar_loop example_pax no_opts (Some 5120) None (Some ?G2) [?m1, ?m2]"
    using attrs_precedence[OF _ _ r6] by (simp add: len)
  also have "\<dots> = Some (Some [?m1, ?m2])"
    by (rule parseTar_loop_break[OF _ r7]) (simp add: len)
  finally have res: "parseTar example_pax no_opts = Some (Some [?m1, ?m2])" .
  have n1: "item_name ?m1 = ''N''"
    by (simp add: make_meta_def override_name_def truthy_def example_records[simplified] Let_def)
  have n2: "item_name ?m2 = ''R2''"
    by (simp add: make_meta_def override_name_def)
  have a1: "item_attrs ?m1 ''path'' = Some (Str ''N'')" "item_attrs ?m1 ''comment'' = Some (Str ''c'')"
    "item_attrs ?m1 ''mode'' = Some (Str ''0000664'')"
    by (simp_all add: make_meta_def spread_def map_add_def example_records[simplified])
  have a2: "item_attrs ?m2 ''path'' = Some (Str ''H'')" "item_attrs ?m2 ''comment'' = Some (Str ''c'')"
    "item_attrs ?m2 ''mode'' = Some (Str ''0000664'')"
    by (simp_all add: make_meta_def spread_def map_add_def example_records[simplified])
  show ?thesis
    unfolding res using n1 n2 a1 a2 by simp
qed

section \<open>Properties of the encoder and of the two together\<close>

subsection \<open>Octal numbers\<close>

lemma octal_isDigit: "octal c \<Longrightarrow> isDigit 8 c"
  by (auto simp: octal_def isDigit_def digitValue_def Let_def)

lemma octal_char_of: "d < 8 \<Longrightarrow> octal (char_of (48 + d :: nat))"
  by (simp add: octal_def)

lemma digits8_octal: "\<forall>c \<in> set (digits8 n). octal c"
proof (induction n rule: digits8.induct)
  case (1 n)
  show ?case
  proof (cases "n < 8")
    case True
    then show ?thesis by (subst digits8.simps) (simp add: octal_char_of)
  next
    case False
    then show ?thesis using 1 by (subst digits8.simps) (simp add: octal_char_of)
  qed
qed

lemma digits8_nonempty: "digits8 n \<noteq> []"
  by (subst digits8.simps) simp

lemma digitsValue_snoc:
  "digitsValue R (Z @ [c]) = digitsValue R Z * R + (case digitValue c of None \<Rightarrow> 0 | Some d \<Rightarrow> d)"
  by (simp add: digitsValue_def)

lemma digitValue_char_of: "d < 8 \<Longrightarrow> digitValue (char_of (48 + d :: nat)) = Some d"
  by (simp add: digitValue_def Let_def)

lemma digitsValue_digits8: "digitsValue 8 (digits8 n) = n"
proof (induction n rule: digits8.induct)
  case (1 n)
  show ?case
  proof (cases "n < 8")
    case True
    then show ?thesis
      by (subst digits8.simps) (simp add: digitsValue_def digitValue_char_of)
  next
    case False
    then have "digitsValue 8 (digits8 (n div 8)) = n div 8" using 1 by simp
    then show ?thesis using False
      by (subst digits8.simps) (simp add: digitsValue_snoc digitValue_char_of)
  qed
qed

lemma length_digits8: "n < 8 ^ k \<Longrightarrow> 0 < k \<Longrightarrow> length (digits8 n) \<le> k"
proof (induction n arbitrary: k rule: digits8.induct)
  case (1 n)
  show ?case
  proof (cases "n < 8")
    case True
    then show ?thesis using 1(3) by (subst digits8.simps) simp
  next
    case False
    have "k \<noteq> 1" using False 1(2) by auto
    then obtain j where k: "k = Suc j" "0 < j" using 1(3)
      by (cases k) auto
    have "n div 8 < 8 ^ j" using 1(2) k by (simp add: less_mult_imp_div_less mult.commute)
    then have "length (digits8 (n div 8)) \<le> j" using 1(1)[OF False _ k(2)] by simp
    then show ?thesis using False k by (subst digits8.simps) simp
  qed
qed

lemma digitsValue_zeros: "digitsValue 8 (replicate z CHR ''0'' @ ds) = digitsValue 8 ds"
proof -
  have "foldl (\<lambda>a c. a * 8 + (case digitValue c of None \<Rightarrow> 0 | Some d \<Rightarrow> d)) 0 (replicate z CHR ''0'') = 0"
    by (induction z) (simp_all add: digitValue_def Let_def)
  then show ?thesis by (simp add: digitsValue_def)
qed

lemma WhiteSpace_first:
  "\<forall>w \<in> set WhiteSpace. w \<noteq> [] \<and> \<not> octal (hd w)"
  by (simp add: WhiteSpace_def octal_def)

lemma leading_octal:
  assumes "octal c"
  shows "leading WhiteSpace (c # cs) = 0"
proof -
  have "\<not> (w \<noteq> [] \<and> prefix w (c # cs))" if "w \<in> set WhiteSpace" for w
  proof
    assume a: "w \<noteq> [] \<and> prefix w (c # cs)"
    then have "hd w = c" by (cases w) auto
    then show False using WhiteSpace_first that assms by auto
  qed
  then have "find (\<lambda>w. w \<noteq> [] \<and> prefix w (c # cs)) WhiteSpace = None"
    by (simp add: find_None_iff)
  then show ?thesis by (simp add: leading_def)
qed

lemma trimStart_octal: "octal c \<Longrightarrow> trimStart (c # cs) = c # cs"
  by (simp add: trimStart_def leading_octal)

lemma parseInt_octal:
  assumes "ds \<noteq> []" "\<forall>c \<in> set ds. octal c" "rest = [] \<or> \<not> isDigit 8 (hd rest)"
  shows "parseInt (ds @ rest) 8 = Some (int (digitsValue 8 ds))"
proof -
  obtain c cs where ds: "ds = c # cs" using assms(1) by (cases ds) auto
  have c: "octal c" using assms(2) ds by simp
  have t: "trimStart (ds @ rest) = ds @ rest" using c ds by (simp add: trimStart_octal)
  have sg: "c \<noteq> CHR ''-''" "c \<noteq> CHR ''+''" using c by (auto simp: octal_def)
  have tw: "takeWhile (isDigit 8) (ds @ rest) = ds"
  proof (cases rest)
    case Nil
    then show ?thesis using assms(2) by (simp add: octal_isDigit)
  next
    case (Cons a list)
    then have "\<not> isDigit 8 a" using assms(3) by simp
    then show ?thesis using Cons assms(2) by (simp add: takeWhile_append2 octal_isDigit del: takeWhile_append)
  qed
  show ?thesis
    unfolding parseInt_def t
    using sg tw assms(1) by (simp add: ds Let_def)
qed

subsection \<open>Writing one entry\<close>

lemma length_whole_chars: "length (whole_chars str k) \<le> k"
  by (induction k) auto

lemma length_encodeInto: "length (encodeInto str n) \<le> n"
  by (simp add: encodeInto_def length_whole_chars Let_def)

lemma length_fieldz [simp]: "length (fieldz n str) = n"
  by (simp add: fieldz_def length_encodeInto)

lemma length_store [simp]: "length (store H j bs) = length H"
  by (simp add: store_def)

lemma store_in_range:
  "j + length bs \<le> length H \<Longrightarrow> store H j bs = take j H @ bs @ drop (j + length bs) H"
  by (simp add: store_def)

lemma store_inside:
  "j + length bs \<le> length H \<Longrightarrow> store (pre @ H @ rest) (length pre + j) bs = pre @ store H j bs @ rest"
  by (simp add: store_def)

lemma writeString_store:
  "offset + sz \<le> length buffer \<Longrightarrow>
   writeString buffer str offset sz = Some (store buffer offset (fieldz sz str))"
  using length_encodeInto[of str sz]
  by (simp add: writeString_def Uint8Array_def store_def fieldz_def Let_def)

lemma writeString_inside:
  assumes "length H = 512" "j + n \<le> 512"
  shows "writeString (pre @ H @ rest) str (length pre + j) n = Some (pre @ store H j (fieldz n str) @ rest)"
  using assms by (simp add: writeString_store store_inside)

lemma writeString_inside0:
  assumes "length H = 512" "n \<le> 512"
  shows "writeString (pre @ H @ rest) str (length pre) n = Some (pre @ store H 0 (fieldz n str) @ rest)"
  using writeString_inside[OF assms(1), of 0 n pre rest str] assms(2) by simp

lemma header_view:
  "length H = 512 \<Longrightarrow> Uint8Array (pre @ H @ rest) (int (length pre)) (Some 512) = Some H"
  by (simp add: Uint8Array_def)

lemma length_header_blank [simp]: "length (header_blank opts_attrs now file) = 512"
  by (simp add: header_blank_def)

lemma length_header_of [simp]: "length (header_of opts_attrs now file) = 512"
  by (simp add: header_of_def)

lemma padded_ge: "sz \<le> padded sz"
proof -
  have "sz = 512 * (sz div 512) + sz mod 512" by simp
  moreover have "sz mod 512 < 512" by simp
  ultimately show ?thesis unfolding padded_def by (cases "sz mod 512 = 0") auto
qed

lemma write_header_inside:
  "write_header opts_attrs now (pre @ replicate 512 CHR 0x00 @ rest) (length pre) file =
     Some (pre @ header_of opts_attrs now file @ rest)"
  unfolding write_header_def header_of_def header_blank_def
  by (simp add: writeString_inside writeString_inside0 header_view Let_def)

subsection \<open>The buffer createTar returns\<close>

lemma createTar_file_block:
  assumes k: "512 + padded (file_size file) \<le> k"
  shows "createTar_file opts_attrs now (pre @ replicate k CHR 0x00) (length pre) file =
         Some (pre @ entry_block opts_attrs now file @ replicate (k - (512 + padded (file_size file))) CHR 0x00,
               length pre + padded (file_size file) + 512)"
proof -
  define rest where "rest = replicate (k - 512) CHR 0x00"
  define Hf where "Hf = header_of opts_attrs now file"
  have len: "length Hf = 512" by (simp add: Hf_def)
  have buf: "replicate k CHR 0x00 = replicate 512 CHR 0x00 @ rest"
    using k by (simp add: rest_def replicate_add[symmetric])
  have hdr: "write_header opts_attrs now (pre @ replicate k CHR 0x00) (length pre) file = Some (pre @ Hf @ rest)"
    unfolding buf Hf_def by (rule write_header_inside)
  show ?thesis
  proof (cases "file_data file")
    case None
    then have sz: "file_size file = 0" by (simp add: file_size_def)
    show ?thesis
      unfolding createTar_file_def hdr using None
      by (simp add: entry_block_def Hf_def rest_def padded_def sz)
  next
    case (Some d)
    then have sz: "file_size file = length d" by (simp add: file_size_def)
    have le: "length d \<le> padded (length d)" by (rule padded_ge)
    have v: "Uint8Array (pre @ Hf @ rest) (int (length pre) + 512) (Some (int (length d))) =
             Some (take (length d) rest)"
      using k le by (simp add: Uint8Array_def len rest_def sz)
    have d: "drop (length d) rest = replicate (padded (length d) - length d) CHR 0x00 @ replicate (k - (512 + padded (length d))) CHR 0x00"
      using k le unfolding rest_def sz by (simp add: replicate_add[symmetric])
    show ?thesis
      unfolding createTar_file_def hdr using Some
      by (simp add: v sz len d entry_block_def Hf_def[symmetric])
  qed
qed

lemma tarDataSize_sum:
  "tarDataSize files = sum_list (map (\<lambda>f. 512 + padded (file_size f)) files)"
proof -
  have "foldl (\<lambda>total file. total + 512 + padded (file_size file)) a fs =
        a + sum_list (map (\<lambda>f. 512 + padded (file_size f)) fs)" for a fs
    by (induction fs arbitrary: a) simp_all
  then show ?thesis by (simp add: tarDataSize_def)
qed

lemma tarDataSize_Cons:
  "tarDataSize (f # fs) = 512 + padded (file_size f) + tarDataSize fs"
  by (simp add: tarDataSize_sum)

lemma tarDataSize_Nil [simp]: "tarDataSize [] = 0"
  by (simp add: tarDataSize_sum)

lemma length_entry_block:
  "length (entry_block opts_attrs now file) = 512 + padded (file_size file)"
  using padded_ge[of "file_size file"]
  by (auto simp: entry_block_def file_size_def padded_def split: option.splits)

lemma createTar_loop_blocks:
  assumes "tarDataSize files \<le> k"
  shows "createTar_loop opts_attrs now (pre @ replicate k CHR 0x00) (length pre) files =
         Some (pre @ concat (map (entry_block opts_attrs now) files) @ replicate (k - tarDataSize files) CHR 0x00,
               length pre + tarDataSize files)"
  using assms
proof (induction files arbitrary: pre k)
  case Nil
  then show ?case by simp
next
  case (Cons f fs)
  let ?b = "entry_block opts_attrs now f"
  let ?s = "512 + padded (file_size f)"
  have k: "?s \<le> k" "tarDataSize fs \<le> k - ?s"
    using Cons.prems by (simp_all add: tarDataSize_Cons)
  have l: "length pre + padded (file_size f) + 512 = length (pre @ ?b)"
    by (simp add: length_entry_block)
  have step: "createTar_file opts_attrs now (pre @ replicate k CHR 0x00) (length pre) f =
      Some ((pre @ ?b) @ replicate (k - ?s) CHR 0x00, length (pre @ ?b))"
    unfolding createTar_file_block[OF k(1)] l by simp
  have "createTar_loop opts_attrs now ((pre @ ?b) @ replicate (k - ?s) CHR 0x00) (length (pre @ ?b)) fs =
     Some ((pre @ ?b) @ concat (map (entry_block opts_attrs now) fs) @ replicate (k - ?s - tarDataSize fs) CHR 0x00,
               length (pre @ ?b) + tarDataSize fs)"
    by (rule Cons.IH[OF k(2)])
  then show ?case
    using step by (simp add: tarDataSize_Cons length_entry_block)
qed

lemma tarDataSize_le_bufSize: "tarDataSize files \<le> bufSize files"
proof -
  have "tarDataSize files = 10240 * (tarDataSize files div 10240) + tarDataSize files mod 10240" by simp
  moreover have "tarDataSize files mod 10240 < 10240" by simp
  ultimately show ?thesis unfolding bufSize_def by (cases "tarDataSize files mod 10240 = 0") auto
qed

lemma createTar_blocks:
  "createTar files opts_attrs now =
     Some (concat (map (entry_block opts_attrs now) files)
           @ replicate (bufSize files - tarDataSize files) CHR 0x00)"
  using createTar_loop_blocks[OF tarDataSize_le_bufSize, of opts_attrs now "[]" files]
  by (simp add: createTar_def)

subsection \<open>The fields of a written header\<close>

lemma slice_store_same:
  "j + length bs \<le> length H \<Longrightarrow> take (length bs) (drop j (store H j bs)) = bs"
  by (simp add: store_in_range)

lemma slice_store_other:
  assumes d: "j' + n \<le> j \<or> j + length bs \<le> j'" and r: "j + length bs \<le> length H"
  shows "take n (drop j' (store H j bs)) = take n (drop j' H)"
proof -
  let ?S = "take j H @ bs @ drop (j + length bs) H"
  have S: "store H j bs = ?S" using r by (rule store_in_range)
  from d show ?thesis
  proof
    assume a: "j' + n \<le> j"
    have lt: "length (take j H) = j" using r by simp
    have "drop j' ?S = drop j' (take j H) @ bs @ drop (j + length bs) H"
      using a lt by simp
    moreover have "length (drop j' (take j H)) = j - j'" using lt by simp
    ultimately have "take n (drop j' ?S) = take n (drop j' (take j H))"
      using a by simp
    also have "\<dots> = take n (take (j - j') (drop j' H))"
      by (simp add: drop_take)
    also have "\<dots> = take n (drop j' H)"
      using a by (simp add: min_def)
    finally show ?thesis unfolding S .
  next
    assume a: "j + length bs \<le> j'"
    have lt: "length (take j H) = j" using r by simp
    have "drop j' ?S = drop (j' - j - length bs) (drop (j + length bs) H)"
      using a lt by simp
    also have "\<dots> = drop j' H"
      using a by simp
    finally show ?thesis unfolding S by simp
  qed
qed

lemma field_store_same:
  "j + n \<le> length H \<Longrightarrow> field (store H j (fieldz n s)) j n = fieldz n s"
  using slice_store_same[of j "fieldz n s" H] by (simp add: field_def)

lemma field_store_other:
  "j' + n' \<le> j \<or> j + length bs \<le> j' \<Longrightarrow> j + length bs \<le> length H \<Longrightarrow>
   field (store H j bs) j' n' = field H j' n'"
  unfolding field_def by (rule slice_store_other)

lemma field_replicate: "j + n \<le> k \<Longrightarrow> field (replicate k x) j n = replicate n x"
  by (simp add: field_def)

lemma field_header_of:
  "field (header_of opts_attrs now file) 0 100 = fieldz 100 (file_name file)"
  "field (header_of opts_attrs now file) 108 8 =
     fieldz 8 (leftPad (toString8 (attr_or attr_uid (file_attrs file) opts_attrs 1000)) 7)"
  "field (header_of opts_attrs now file) 124 12 =
     fieldz 12 (leftPad (toString8 (int (file_size file))) 11)"
  "field (header_of opts_attrs now file) 156 1 =
     fieldz 1 (if file_data file = None then ''5'' else ''0'')"
  "field (header_of opts_attrs now file) 257 6 = fieldz 6 ''ustar''"
  "field (header_of opts_attrs now file) 345 155 = replicate 155 CHR 0x00"
  "field (header_of opts_attrs now file) 148 8 =
     fieldz 8 (toString8 (int (sum_list (map of_char (header_blank opts_attrs now file)))))"
  unfolding header_of_def header_blank_def
  by (simp_all add: field_store_other field_store_same field_replicate split del: if_split cong: if_cong)

subsection \<open>Reading the fields back\<close>

lemma fieldz_short:
  "utf8 s \<Longrightarrow> length s \<le> n \<Longrightarrow> fieldz n s = s @ replicate (n - length s) CHR 0x00"
  by (simp add: fieldz_def encodeInto_def TextEncoder_utf8)

lemma takeWhile_fieldz:
  assumes "utf8 s" "length s \<le> n" "CHR 0x00 \<notin> set s"
  shows "takeWhile (\<lambda>c. c \<noteq> CHR 0x00) (fieldz n s) = s"
proof -
  have "\<forall>c \<in> set s. c \<noteq> CHR 0x00" using assms(3) by auto
  then show ?thesis
    unfolding fieldz_short[OF assms(1,2)]
    by (cases "n - length s") (simp_all add: takeWhile_append2 del: takeWhile_append)
qed

lemma String_length_ascii:
  "\<forall>c \<in> set s. (of_char c :: nat) < 128 \<Longrightarrow> String_length s = length s"
  by (induction s) (simp_all add: String_length_def is_continuation_def)

lemma octal_ascii: "octal c \<Longrightarrow> (of_char c :: nat) < 128"
  by (simp add: octal_def)

lemma leftPad_digits8:
  "leftPad (digits8 m) k = replicate (k - length (digits8 m)) CHR ''0'' @ digits8 m"
  using digits8_octal[of m] by (simp add: leftPad_def String_length_ascii octal_ascii)

lemma octal_zero: "octal CHR ''0''"
  by (simp add: octal_def)

lemma not_digit_nul: "\<not> isDigit 8 CHR 0x00"
  by (simp add: isDigit_def digitValue_def)

lemma parse_octal_field:
  assumes "length (digits8 m) \<le> w" and that: "k \<le> w"
  shows "parseInt (concat (map fromCodePoint (fieldz w (leftPad (digits8 m) k)))) 8 = Some (int m)"
proof -
  let ?ds = "replicate (k - length (digits8 m)) CHR ''0'' @ digits8 m"
  have len: "length ?ds \<le> w" using assms that by simp
  have oct: "\<forall>c \<in> set ?ds. octal c" using digits8_octal[of m] by (auto simp: octal_zero)
  have ne: "?ds \<noteq> []" using digits8_nonempty by simp
  let ?rest = "replicate (w - length ?ds) CHR 0x00"
  have "\<forall>c \<in> set ?ds. (of_char c :: nat) < 128"
    using oct by (auto simp: octal_ascii)
  then have "utf8 ?ds" by (rule utf8_ascii)
  then have f: "fieldz w (leftPad (digits8 m) k) = ?ds @ ?rest"
    unfolding leftPad_digits8 using len by (rule fieldz_short)
  have a: "\<forall>c \<in> set (?ds @ ?rest). (of_char c :: nat) < 128"
    using oct by (auto simp: octal_ascii)
  have r: "?rest = [] \<or> \<not> isDigit 8 (hd ?rest)"
    by (cases "w - length ?ds") (simp_all add: not_digit_nul)
  have "parseInt (?ds @ ?rest) 8 = Some (int (digitsValue 8 ?ds))"
    by (rule parseInt_octal[OF ne oct r])
  then show ?thesis
    unfolding f fromCodePoint_ascii[OF a] by (simp add: digitsValue_zeros digitsValue_digits8)
qed

lemma seek_of_padded: "seek_of (Some (int sz)) = Some (int (512 + padded sz))"
proof -
  have s: "seek_of (Some (int sz)) = Some (512 + 512 * (int sz div 512) + (if int sz mod 512 \<noteq> 0 then 512 else 0))"
    by (rule seek_of_nonneg) simp
  have d: "int sz div 512 = int (sz div 512)" by (simp add: zdiv_int)
  have m: "int sz mod 512 = int (sz mod 512)" by (simp add: zmod_int)
  show ?thesis unfolding s d m by (simp add: padded_def)
qed

lemma header_of_fields:
  assumes "name_ok (file_name file)" "file_size file < 8 ^ 12"
  shows "field_string (header_of opts_attrs now file) 0 100 = file_name file"
    and "field_number (header_of opts_attrs now file) 124 12 = Some (int (file_size file))"
    and "field_string (header_of opts_attrs now file) 156 1 = (if file_data file = None then ''5'' else ''0'')"
    and "field_string (header_of opts_attrs now file) 257 6 = ''ustar''"
    and "field_string (header_of opts_attrs now file) 345 155 = []"
proof -
  show "field_string (header_of opts_attrs now file) 0 100 = file_name file"
    using assms(1)
    by (simp add: field_string_def field_header_of takeWhile_fieldz TextDecoder_utf8 name_ok_def)
  have "length (digits8 (file_size file)) \<le> 12"
    by (rule length_digits8[OF assms(2)]) simp
  then show "field_number (header_of opts_attrs now file) 124 12 = Some (int (file_size file))"
    by (simp add: field_number_def field_header_of toString8_def parse_octal_field)
  show "field_string (header_of opts_attrs now file) 156 1 = (if file_data file = None then ''5'' else ''0'')"
    unfolding field_string_def field_header_of(4)
    by (cases "file_data file") (simp_all add: takeWhile_fieldz TextDecoder_ascii utf8_ascii)
  show "field_string (header_of opts_attrs now file) 257 6 = ''ustar''"
    by (simp add: field_string_def field_header_of takeWhile_fieldz TextDecoder_ascii utf8_ascii)
  show "field_string (header_of opts_attrs now file) 345 155 = []"
    by (simp add: field_string_def field_header_of)
qed

lemma resolve_type_written:
  "resolve_type ''5'' = ''directory''" "resolve_type ''0'' = ''file''"
  by (simp_all add: resolve_type_def tarItemTypeMap_def tarItemTypes_def)

lemma parseTar_body_block:
  assumes ok: "name_ok (file_name file)" "file_size file < 8 ^ 12"
  shows "parseTar_body (pre @ entry_block opts_attrs now file @ rest) no_opts (int (length pre)) None None acc =
         Some (Continue (Some (int (length pre) + int (512 + padded (file_size file)))) None None
                 (acc @ [decoded_item opts_attrs now file]))"
proof -
  define H where "H = header_of opts_attrs now file"
  define tail where "tail = (case file_data file of None \<Rightarrow> [] | Some d \<Rightarrow> d @ replicate (padded (length d) - length d) CHR 0x00) @ rest"
  have buf: "pre @ entry_block opts_attrs now file @ rest = pre @ H @ tail"
    by (simp add: entry_block_def H_def tail_def)
  have len: "length H = 512" by (simp add: H_def)
  note r = header_reads_block(1-7)[OF len, of pre tail]
  note u = header_reads_block(8-11)[OF len, of pre tail]
  note f = header_of_fields[OF ok, of opts_attrs now, folded H_def]
  have ne: "file_name file \<noteq> []" using ok(1) by (simp add: name_ok_def)
  have data: "(if Some (int (file_size file)) = Some 0 then Some None
               else map_option Some (Uint8Array (pre @ H @ tail) (int (length pre) + 512) (Some (int (file_size file)))))
              = Some (if file_size file = 0 then None else file_data file)"
  proof (cases "file_data file")
    case None
    then show ?thesis by (simp add: file_size_def)
  next
    case (Some d)
    then show ?thesis
      using payload_view[OF len, of pre d]
      by (simp add: file_size_def tail_def)
  qed
  show ?thesis
    unfolding buf parseTar_body_eq[OF r] ustar_fields_eq[OF u] f
    using ne data
    by (simp add: resolve_type_written override_name_def emit_def no_opts_def seek_of_padded
          plus_number_def decoded_item_def H_def[symmetric] Let_def)
qed

subsection \<open>Decoding what was encoded\<close>

lemma length_blocks:
  "length (concat (map (entry_block opts_attrs now) fs)) = tarDataSize fs"
  by (induction fs) (simp_all add: tarDataSize_Cons length_entry_block)

lemma parseTar_loop_blocks:
  assumes ok: "\<forall>f \<in> set fs. name_ok (file_name f) \<and> file_size f < 8 ^ 12"
      and stop: "length rest \<le> 512 \<or> hd rest = CHR 0x00"
      and fits: "fs = [] \<or> rest \<noteq> [] \<or> file_size (last fs) \<noteq> 0"
  shows "parseTar_loop (pre @ concat (map (entry_block opts_attrs now) fs) @ rest) no_opts
           (Some (int (length pre))) None None acc =
         Some (Some (acc @ map (decoded_item opts_attrs now) fs))"
  using ok fits
proof (induction fs arbitrary: pre acc)
  case Nil
  show ?case
  proof (cases "length rest \<le> 512")
    case True
    then show ?thesis by (subst parseTar_loop.simps) simp
  next
    case False
    then have r: "512 < length rest" "hd rest = CHR 0x00" "100 \<le> length rest" using stop by auto
    show ?thesis
      using r(1) by (subst parseTar_loop.simps) (simp add: parseTar_body_end[OF r(3,2)])
  qed
next
  case (Cons f fs)
  let ?b = "entry_block opts_attrs now f"
  let ?tail = "concat (map (entry_block opts_attrs now) fs) @ rest"
  have okf: "name_ok (file_name f)" "file_size f < 8 ^ 12" using Cons.prems by auto
  have lb: "length ?b = 512 + padded (file_size f)" by (rule length_entry_block)
  have lt: "length ?tail = tarDataSize fs + length rest" by (simp add: length_blocks)
  have more: "0 < padded (file_size f) + (tarDataSize fs + length rest)"
  proof (cases fs)
    case Nil
    then have "rest \<noteq> [] \<or> file_size f \<noteq> 0" using Cons.prems(2) by simp
    then show ?thesis using padded_ge[of "file_size f"] by auto
  next
    case (Cons g gs)
    then show ?thesis by (simp add: tarDataSize_Cons)
  qed
  have "length (pre @ ?b @ ?tail) = length pre + (length ?b + length ?tail)" by simp
  then have cond: "int (length pre) < int (length (pre @ ?b @ ?tail)) - 512"
    unfolding lb lt using more by linarith
  have body: "parseTar_body (pre @ ?b @ ?tail) no_opts (int (length pre)) None None acc =
         Some (Continue (Some (int (length (pre @ ?b)))) None None (acc @ [decoded_item opts_attrs now f]))"
    unfolding parseTar_body_block[OF okf] by (simp add: lb)
  have fits': "fs = [] \<or> rest \<noteq> [] \<or> file_size (last fs) \<noteq> 0"
    using Cons.prems(2) by (cases fs) auto
  have ih: "parseTar_loop ((pre @ ?b) @ ?tail) no_opts (Some (int (length (pre @ ?b)))) None None
              (acc @ [decoded_item opts_attrs now f]) =
            Some (Some ((acc @ [decoded_item opts_attrs now f]) @ map (decoded_item opts_attrs now) fs))"
    using Cons.prems(1) fits' by (intro Cons.IH) auto
  have "parseTar_loop (pre @ ?b @ ?tail) no_opts (Some (int (length pre))) None None acc =
        parseTar_loop (pre @ ?b @ ?tail) no_opts (Some (int (length (pre @ ?b)))) None None
              (acc @ [decoded_item opts_attrs now f])"
    using cond by (subst parseTar_loop.simps) (simp only: body option.case ctl.case if_True)
  then show ?case using ih by simp
qed

lemma padded_dvd: "512 dvd padded sz"
  by (simp add: padded_def)

lemma tarDataSize_dvd: "512 dvd tarDataSize fs"
  by (induction fs) (simp_all add: tarDataSize_Cons padded_dvd)

lemma room_after:
  assumes "tarDataSize fs mod 10240 \<noteq> 0"
  shows "512 \<le> bufSize fs - tarDataSize fs"
proof -
  define q where "q = tarDataSize fs div 10240"
  define r where "r = tarDataSize fs mod 10240"
  have T: "tarDataSize fs = 10240 * q + r" by (simp add: q_def r_def)
  have B: "bufSize fs = 10240 * q + 10240"
    using assms by (simp add: bufSize_def q_def)
  have "512 dvd r"
    using tarDataSize_dvd[of fs] by (simp add: r_def dvd_mod_iff)
  then obtain k where k: "r = 512 * k" by (auto elim: dvdE)
  have "r < 10240" by (simp add: r_def)
  then have "k < 20" using k by simp
  then have "r \<le> 9728" using k by simp
  then show ?thesis unfolding T B by simp
qed

lemma tarDataSize_append: "tarDataSize (fs @ gs) = tarDataSize fs + tarDataSize gs"
  by (simp add: tarDataSize_sum)

lemma tarDataSize_example_dirs: "tarDataSize (replicate n example_dir) = 512 * n"
  by (induction n) (simp_all add: tarDataSize_Cons file_size_def example_dir_def padded_def)

lemma bufSize_exact: "tarDataSize fs mod 10240 = 0 \<Longrightarrow> bufSize fs = tarDataSize fs"
  by (auto simp: bufSize_def)

lemma decoded_item_simps:
  "item_name (decoded_item opts_attrs now f) = file_name f"
  "item_type (decoded_item opts_attrs now f) = (if file_data f = None then ''directory'' else ''file'')"
  "item_size (decoded_item opts_attrs now f) = Some (int (file_size f))"
  "item_data (decoded_item opts_attrs now f) = (if file_size f = 0 then None else file_data f)"
  "item_attrs (decoded_item opts_attrs now f) ''uid'' =
     Some (Num (parseInt (field_string (header_of opts_attrs now f) 108 8) 0))"
  by (simp_all add: decoded_item_def make_meta_def Let_def)

text \<open>
  Claim C1, as amended. Take entries whose names are well-formed Unicode text (no unpaired
  surrogate), not empty, of at most 100 bytes in UTF-8, without NUL and without a byte order
  mark in front, and whose payloads are shorter than \<open>8^12\<close> bytes; the list may be empty.
  Unless the blocks of the entries fill the 10240-byte records of the buffer exactly and the
  last entry has no payload byte (its header then lies in the last 512 bytes of the buffer),
  \<^verbatim>\<open>createTar\<close> returns a buffer and \<^verbatim>\<open>parseTar\<close> (no filter, not \<^verbatim>\<open>metaOnly\<close>) returns
  from it as many entries, each with the name, the type (directory when the payload was
  absent, file otherwise), the size and the payload bytes of the entry it comes from; a
  payload of no bytes comes back absent.
\<close>

theorem createTar_parseTar_roundtrip:
  assumes names: "\<forall>f \<in> set files. utf8 (file_name f) \<and> file_name f \<noteq> []
                     \<and> length (file_name f) \<le> 100
                     \<and> CHR 0x00 \<notin> set (file_name f) \<and> \<not> prefix BOM (file_name f)"
      and sizes: "\<forall>f \<in> set files. file_size f < 8 ^ 12"
      and last_block: "files = [] \<or> tarDataSize files mod 10240 \<noteq> 0 \<or> file_size (last files) \<noteq> 0"
  shows "\<exists>buf items.
           createTar files opts_attrs now = Some buf
           \<and> parseTar buf \<lparr>filter_fn = None, metaOnly = False\<rparr> = Some (Some items)
           \<and> length items = length files
           \<and> (\<forall>i < length files.
                 item_name (items ! i) = file_name (files ! i)
                 \<and> item_type (items ! i) = (if file_data (files ! i) = None then ''directory'' else ''file'')
                 \<and> item_size (items ! i) = Some (int (file_size (files ! i)))
                 \<and> item_data (items ! i) =
                     (if file_size (files ! i) = 0 then None else file_data (files ! i)))"
proof -
  let ?rest = "replicate (bufSize files - tarDataSize files) CHR 0x00"
  let ?buf = "concat (map (entry_block opts_attrs now) files) @ ?rest"
  let ?items = "map (decoded_item opts_attrs now) files"
  have ok: "\<forall>f \<in> set files. name_ok (file_name f) \<and> file_size f < 8 ^ 12"
    using names sizes by (simp add: name_ok_def)
  have stop: "length ?rest \<le> 512 \<or> hd ?rest = CHR 0x00"
    by (cases "bufSize files - tarDataSize files") auto
  have "tarDataSize files mod 10240 \<noteq> 0 \<Longrightarrow> ?rest \<noteq> []"
    using room_after[of files] by auto
  then have fits: "files = [] \<or> ?rest \<noteq> [] \<or> file_size (last files) \<noteq> 0"
    using last_block by blast
  have "parseTar_loop ([] @ ?buf) no_opts (Some (int (length ([] :: bytes)))) None None [] =
        Some (Some ([] @ ?items))"
    using ok stop fits by (rule parseTar_loop_blocks)
  then have p: "parseTar ?buf \<lparr>filter_fn = None, metaOnly = False\<rparr> = Some (Some ?items)"
    by (simp add: parseTar_def no_opts_def)
  have c: "createTar files opts_attrs now = Some ?buf" by (rule createTar_blocks)
  have "\<forall>i < length files.
                 item_name (?items ! i) = file_name (files ! i)
                 \<and> item_type (?items ! i) = (if file_data (files ! i) = None then ''directory'' else ''file'')
                 \<and> item_size (?items ! i) = Some (int (file_size (files ! i)))
                 \<and> item_data (?items ! i) =
                     (if file_size (files ! i) = 0 then None else file_data (files ! i))"
    by (simp add: decoded_item_simps)
  with c p show ?thesis
    by (intro exI[of _ ?buf] exI[of _ ?items]) simp
qed

lemma size_example_file: "tarDataSize [example_file] = 1024" "file_size example_file = 3"
  by (simp_all add: tarDataSize_Cons file_size_def example_file_def padded_def)

lemma size_example_dir: "file_size example_dir = 0"
  by (simp add: file_size_def example_dir_def)

theorem createTar_parseTar_roundtrip_witness:
  "utf8 (file_name example_dir) \<and> file_name example_dir \<noteq> []
   \<and> length (file_name example_dir) \<le> 100
   \<and> CHR 0x00 \<notin> set (file_name example_dir) \<and> \<not> prefix BOM (file_name example_dir)
   \<and> utf8 (file_name example_file) \<and> file_name example_file \<noteq> []
   \<and> length (file_name example_file) \<le> 100
   \<and> CHR 0x00 \<notin> set (file_name example_file) \<and> \<not> prefix BOM (file_name example_file)
   \<and> file_size example_dir < 8 ^ 12 \<and> file_size example_file < 8 ^ 12
   \<and> tarDataSize (replicate 18 example_dir @ [example_file]) = 10240
   \<and> file_size (last (replicate 18 example_dir @ [example_file])) = 3
   \<and> (\<exists>buf items.
         createTar (replicate 18 example_dir @ [example_file]) None 0 = Some buf
         \<and> parseTar buf \<lparr>filter_fn = None, metaOnly = False\<rparr> = Some (Some items)
         \<and> length items = 19
         \<and> item_name (items ! 0) = ''d'' \<and> item_type (items ! 0) = ''directory''
         \<and> item_size (items ! 0) = Some 0 \<and> item_data (items ! 0) = None
         \<and> item_name (items ! 18) = ''a.txt'' \<and> item_type (items ! 18) = ''file''
         \<and> item_size (items ! 18) = Some 3 \<and> item_data (items ! 18) = Some ''abc'')"
proof -
  let ?files = "replicate 18 example_dir @ [example_file]"
  have d: "utf8 (file_name example_dir) \<and> file_name example_dir \<noteq> []
      \<and> length (file_name example_dir) \<le> 100
      \<and> CHR 0x00 \<notin> set (file_name example_dir) \<and> \<not> prefix BOM (file_name example_dir)"
    by (simp add: example_dir_def BOM_def utf8_ascii)
  have f: "utf8 (file_name example_file) \<and> file_name example_file \<noteq> []
      \<and> length (file_name example_file) \<le> 100
      \<and> CHR 0x00 \<notin> set (file_name example_file) \<and> \<not> prefix BOM (file_name example_file)"
    by (simp add: example_file_def BOM_def utf8_ascii)
  have names: "\<forall>f \<in> set ?files. utf8 (file_name f) \<and> file_name f \<noteq> []
                     \<and> length (file_name f) \<le> 100
                     \<and> CHR 0x00 \<notin> set (file_name f) \<and> \<not> prefix BOM (file_name f)"
    using d f by simp
  have sz: "file_size example_dir < 8 ^ 12 \<and> file_size example_file < 8 ^ 12"
    by (simp add: size_example_file size_example_dir)
  then have sizes: "\<forall>f \<in> set ?files. file_size f < 8 ^ 12"
    by simp
  have total: "tarDataSize ?files = 10240"
    by (simp add: tarDataSize_append tarDataSize_example_dirs size_example_file)
  have l: "file_size (last ?files) = 3"
    by (simp add: size_example_file)
  then have last_block: "?files = [] \<or> tarDataSize ?files mod 10240 \<noteq> 0 \<or> file_size (last ?files) \<noteq> 0"
    by simp
  from createTar_parseTar_roundtrip[OF names sizes last_block, of None 0]
  obtain buf items where r: "createTar ?files None 0 = Some buf"
    "parseTar buf \<lparr>filter_fn = None, metaOnly = False\<rparr> = Some (Some items)"
    "length items = length ?files"
    and each: "\<And>i. i < length ?files \<Longrightarrow>
                 item_name (items ! i) = file_name (?files ! i)
                 \<and> item_type (items ! i) = (if file_data (?files ! i) = None then ''directory'' else ''file'')
                 \<and> item_size (items ! i) = Some (int (file_size (?files ! i)))
                 \<and> item_data (items ! i) =
                     (if file_size (?files ! i) = 0 then None else file_data (?files ! i))"
    by blast
  have n0: "?files ! 0 = example_dir" and n18: "?files ! 18 = example_file"
    by (simp_all add: nth_append)
  have first: "item_name (items ! 0) = ''d'' \<and> item_type (items ! 0) = ''directory''
         \<and> item_size (items ! 0) = Some 0 \<and> item_data (items ! 0) = None"
    using each[of 0] unfolding n0 by (simp add: size_example_dir) (simp add: example_dir_def)
  have lst: "item_name (items ! 18) = ''a.txt'' \<and> item_type (items ! 18) = ''file''
         \<and> item_size (items ! 18) = Some 3 \<and> item_data (items ! 18) = Some ''abc''"
    using each[of 18] unfolding n18 by (simp add: size_example_file) (simp add: example_file_def)
  have "\<exists>buf items.
         createTar ?files None 0 = Some buf
         \<and> parseTar buf \<lparr>filter_fn = None, metaOnly = False\<rparr> = Some (Some items)
         \<and> length items = 19
         \<and> item_name (items ! 0) = ''d'' \<and> item_type (items ! 0) = ''directory''
         \<and> item_size (items ! 0) = Some 0 \<and> item_data (items ! 0) = None
         \<and> item_name (items ! 18) = ''a.txt'' \<and> item_type (items ! 18) = ''file''
         \<and> item_size (items ! 18) = Some 3 \<and> item_data (items ! 18) = Some ''abc''"
    using r first lst by (intro exI[of _ buf] exI[of _ items]) simp
  then show ?thesis
    using d f sz total l by blast
qed

text \<open>
  Claim C1 as stated fails: an entry with the empty name (at most 100 bytes) is written
  by \<^verbatim>\<open>createTar\<close>, and \<^verbatim>\<open>parseTar\<close> takes its empty name field for the end of the
  archive and returns no entry at all.
\<close>

theorem roundtrip_empty_name_counterexample:
  "length (file_name example_unnamed) \<le> 100
   \<and> createTar [example_unnamed] None 0 \<noteq> None
   \<and> parseTar (the (createTar [example_unnamed] None 0)) \<lparr>filter_fn = None, metaOnly = False\<rparr>
       = Some (Some [])"
proof -
  let ?H = "header_of None 0 example_unnamed"
  let ?rest = "replicate 9728 CHR 0x00"
  have sz: "tarDataSize [example_unnamed] = 512" "bufSize [example_unnamed] = 10240"
    by (simp_all add: bufSize_def tarDataSize_Cons file_size_def example_unnamed_def padded_def)
  have eb: "entry_block None 0 example_unnamed = ?H"
    by (simp add: entry_block_def example_unnamed_def)
  have c: "createTar [example_unnamed] None 0 = Some ([] @ ?H @ ?rest)"
    unfolding createTar_blocks by (simp add: sz eb)
  have "field ?H 0 100 = replicate 100 CHR 0x00"
    by (simp add: field_header_of example_unnamed_def fieldz_short)
  then have "readString ([] @ ?H @ ?rest) (int (length ([] :: bytes))) (Some 100) = Some []"
    unfolding header_reads_block(1)[OF length_header_of]
    by (simp add: field_string_def)
  then have "parseTar_body (?H @ ?rest) \<lparr>filter_fn = None, metaOnly = False\<rparr> 0 None None [] = Some (Break [])"
    by (simp add: parseTar_body_def)
  then have "parseTar (?H @ ?rest) \<lparr>filter_fn = None, metaOnly = False\<rparr> = Some (Some [])"
    unfolding parseTar_def by (subst parseTar_loop.simps) simp
  then show ?thesis
    using c by (simp add: example_unnamed_def)
qed

subsection \<open>A header in the last block\<close>

lemma blocks_replicate_Suc:
  "concat (map g (replicate (Suc n) x)) = concat (map g (replicate n x)) @ g x"
  by (induction n) simp_all

text \<open>
  Claim C3 fails on the code. Twenty directories make \<^verbatim>\<open>createTar\<close> return a buffer of
  exactly 10240 bytes; the header of the last one starts 512 bytes before the end of the
  buffer and has the name \<^verbatim>\<open>d\<close>, and \<^verbatim>\<open>parseTar\<close>, whose loop runs while
  \<^verbatim>\<open>offset < buffer.byteLength - 512\<close>, returns nineteen entries.
\<close>

theorem last_block_header_dropped:
  "createTar (replicate 20 example_dir) None 0 \<noteq> None
   \<and> length (the (createTar (replicate 20 example_dir) None 0)) = 10240
   \<and> readString (the (createTar (replicate 20 example_dir) None 0)) (10240 - 512) (Some 100) = Some ''d''
   \<and> map_option (map_option length)
        (parseTar (the (createTar (replicate 20 example_dir) None 0))
           \<lparr>filter_fn = None, metaOnly = False\<rparr>) = Some (Some 19)"
proof -
  let ?eb = "entry_block None 0"
  let ?fs = "replicate 19 example_dir"
  let ?last = "?eb example_dir"
  let ?buf = "concat (map ?eb ?fs) @ ?last"
  have sz: "file_size example_dir = 0" "padded 0 = 0"
    by (simp_all add: file_size_def example_dir_def padded_def)
  note T = tarDataSize_example_dirs
  have B: "bufSize (replicate 20 example_dir) = 10240"
    by (simp add: bufSize_def T)
  have "replicate 20 example_dir = replicate (Suc 19) example_dir" by simp
  then have split: "concat (map ?eb (replicate 20 example_dir)) = ?buf"
    by (simp only: blocks_replicate_Suc)
  have c: "createTar (replicate 20 example_dir) None 0 = Some ?buf"
    unfolding createTar_blocks split by (simp add: B T)
  have ll: "length ?last = 512" by (simp add: length_entry_block sz)
  have lp: "length (concat (map ?eb ?fs)) = 9728" unfolding length_blocks T by simp
  have len: "length ?buf = 10240" using ll lp by simp
  have ok: "\<forall>f \<in> set ?fs. name_ok (file_name f) \<and> file_size f < 8 ^ 12"
    by (simp add: name_ok_def example_dir_def sz BOM_def file_size_def utf8_ascii)
  have "parseTar_loop ([] @ ?buf) no_opts (Some (int (length ([] :: bytes)))) None None [] =
        Some (Some ([] @ map (decoded_item None 0) ?fs))"
    by (rule parseTar_loop_blocks[OF ok]) (use ll in auto)
  then have p: "parseTar ?buf \<lparr>filter_fn = None, metaOnly = False\<rparr> =
      Some (Some (map (decoded_item None 0) ?fs))"
    by (simp add: parseTar_def no_opts_def)
  have eb: "?last = header_of None 0 example_dir"
    by (simp add: entry_block_def example_dir_def)
  have nm: "name_ok (file_name example_dir)"
    by (simp add: name_ok_def example_dir_def BOM_def utf8_ascii)
  have fsd: "field_string (header_of None 0 example_dir) 0 100 = ''d''"
    using header_of_fields(1)[OF nm, of None 0] by (simp add: sz) (simp add: example_dir_def)
  have "readString (concat (map ?eb ?fs) @ header_of None 0 example_dir @ [])
          (int (length (concat (map ?eb ?fs)))) (Some 100)
        = Some (field_string (header_of None 0 example_dir) 0 100)"
    by (rule header_reads_block(1)) simp
  then have rd: "readString ?buf (10240 - 512) (Some 100) = Some ''d''"
    unfolding fsd lp eb by simp
  show ?thesis
    unfolding c using len rd p by simp
qed

subsection \<open>The uid and gid fields\<close>

lemma uid_values:
  "leftPad (toString8 1000) 7 = ''0001750''"
  "parseInt ''0001750'' 0 = Some 1750" "parseInt ''0001750'' 8 = Some 1000"
  by code_simp+

text \<open>
  Claim C2 fails on the code. \<^verbatim>\<open>createTar\<close> writes the default uid 1000 in octal, the
  field reads \<^verbatim>\<open>0001750\<close>; \<^verbatim>\<open>parseTar\<close> reads the field with \<^verbatim>\<open>Number.parseInt\<close> and no
  radix and returns 1750, where the field read as an octal number is 1000.
\<close>

theorem uid_read_as_decimal:
  "createTar [example_file] None 0 \<noteq> None
   \<and> map_option (map_option (map (\<lambda>item. item_attrs item ''uid'')))
        (parseTar (the (createTar [example_file] None 0)) \<lparr>filter_fn = None, metaOnly = False\<rparr>)
       = Some (Some [Some (Num (Some 1750))])
   \<and> readString (the (createTar [example_file] None 0)) 108 (Some 8) = Some ''0001750''
   \<and> parseInt ''0001750'' 8 = Some 1000"
proof -
  let ?H = "header_of None 0 example_file"
  let ?tail = "''abc'' @ replicate 509 CHR 0x00 @ replicate 9216 CHR 0x00"
  have sz: "tarDataSize [example_file] = 1024" "bufSize [example_file] = 10240" "padded 3 = 512"
    by (simp_all add: bufSize_def size_example_file padded_def)
  have d: "file_data example_file = Some ''abc''" by (simp add: example_file_def)
  have pad: "padded (length ''abc'') - length ''abc'' = 509" by (simp add: padded_def)
  have eb: "entry_block None 0 example_file = ?H @ ''abc'' @ replicate 509 CHR 0x00"
    unfolding entry_block_def d option.case pad by (rule refl)
  have c: "createTar [example_file] None 0 = Some ([] @ ?H @ ?tail)"
    unfolding createTar_blocks by (simp add: sz eb)
  have ok: "\<forall>f \<in> set [example_file]. name_ok (file_name f) \<and> file_size f < 8 ^ 12"
    by (simp add: name_ok_def size_example_file) (simp add: example_file_def BOM_def utf8_ascii)
  have "parseTar_loop ([] @ concat (map (entry_block None 0) [example_file]) @ replicate 9216 CHR 0x00) no_opts
          (Some (int (length ([] :: bytes)))) None None [] =
        Some (Some ([] @ map (decoded_item None 0) [example_file]))"
    by (rule parseTar_loop_blocks[OF ok]) simp_all
  then have p: "parseTar (?H @ ?tail) \<lparr>filter_fn = None, metaOnly = False\<rparr> =
      Some (Some [decoded_item None 0 example_file])"
    by (simp add: parseTar_def no_opts_def eb)
  have f: "field ?H 108 8 = ''0001750'' @ [CHR 0x00]"
    unfolding field_header_of
    by (simp add: example_file_def attr_or_def uid_values fieldz_short utf8_ascii)
  then have fs: "field_string ?H 108 8 = ''0001750''"
    by (simp add: field_string_def TextDecoder_ascii)
  have "readString ([] @ ?H @ ?tail) (int (length ([] :: bytes)) + 108) (Some 8) = Some (field_string ?H 108 8)"
    by (rule header_reads_block(3)) simp
  then have rd: "readString (?H @ ?tail) 108 (Some 8) = Some ''0001750''"
    by (simp add: fs)
  have "item_attrs (decoded_item None 0 example_file) ''uid'' = Some (Num (Some 1750))"
    by (simp add: decoded_item_simps fs uid_values)
  then show ?thesis
    using c p rd by (simp add: uid_values)
qed

subsection \<open>PAX records\<close>

text \<open>
  Claim C8 fails on the code. Of the record \<^verbatim>\<open>20 path=my file.txt\<close> the value stored for
  \<^verbatim>\<open>path\<close> is \<^verbatim>\<open>my\<close>, and of \<^verbatim>\<open>15 comment=a=b\<close> the value stored for \<^verbatim>\<open>comment\<close> is
  \<^verbatim>\<open>a\<close>: the value ends at the next space and at the next \<^verbatim>\<open>=\<close>.
\<close>

theorem pax_value_truncated:
  "parseExtendedHeaders (''20 path=my file.txt'' @ [CHR 0x0A]) ''path'' = Some (Str ''my'')
   \<and> parseExtendedHeaders (''15 comment=a=b'' @ [CHR 0x0A]) ''comment'' = Some (Str ''a'')"
  by code_simp

subsection \<open>The clock\<close>

lemma attr_or_supplied:
  "Option.bind fa f \<noteq> None \<or> Option.bind oa f \<noteq> None \<Longrightarrow> attr_or f fa oa d = attr_or f fa oa d'"
  by (auto simp: attr_or_def split: option.splits)

lemma write_header_now:
  assumes "Option.bind (file_attrs file) attr_mtime \<noteq> None \<or> Option.bind opts_attrs attr_mtime \<noteq> None"
  shows "write_header opts_attrs now1 buffer offset file = write_header opts_attrs now2 buffer offset file"
  unfolding write_header_def attr_or_supplied[OF assms, of now1 now2] ..

lemma createTar_file_now:
  assumes "Option.bind (file_attrs file) attr_mtime \<noteq> None \<or> Option.bind opts_attrs attr_mtime \<noteq> None"
  shows "createTar_file opts_attrs now1 buffer offset file = createTar_file opts_attrs now2 buffer offset file"
  unfolding createTar_file_def write_header_now[OF assms, of now1 _ _ now2] ..

lemma createTar_loop_now:
  assumes "\<forall>f \<in> set files. Option.bind (file_attrs f) attr_mtime \<noteq> None
                              \<or> Option.bind opts_attrs attr_mtime \<noteq> None"
  shows "createTar_loop opts_attrs now1 buffer offset files = createTar_loop opts_attrs now2 buffer offset files"
  using assms
proof (induction files arbitrary: buffer offset)
  case Nil
  show ?case by simp
next
  case (Cons f fs)
  have "createTar_file opts_attrs now1 buffer offset f = createTar_file opts_attrs now2 buffer offset f"
    using Cons.prems by (intro createTar_file_now) auto
  moreover have "createTar_loop opts_attrs now1 b off fs = createTar_loop opts_attrs now2 b off fs" for b off
    using Cons.prems by (intro Cons.IH) auto
  ultimately show ?case by simp
qed

text \<open>
  Claim C10. When every entry has an \<^verbatim>\<open>mtime\<close> in its own \<^verbatim>\<open>attrs\<close> or the options have
  one, \<^verbatim>\<open>createTar\<close> returns a buffer, and the same buffer whatever \<^verbatim>\<open>Date.now()\<close>
  returns: two calls with the same entries and options differ only if some entry lacks an
  \<^verbatim>\<open>mtime\<close> in both places.
\<close>

theorem createTar_deterministic:
  assumes "\<forall>f \<in> set files. Option.bind (file_attrs f) attr_mtime \<noteq> None
                              \<or> Option.bind opts_attrs attr_mtime \<noteq> None"
  shows "createTar files opts_attrs now1 = createTar files opts_attrs now2
         \<and> createTar files opts_attrs now1 \<noteq> None"
  using createTar_loop_now[OF assms, of now1 _ _ now2]
  by (simp add: createTar_def createTar_blocks[unfolded createTar_def])

theorem createTar_deterministic_witness:
  "Option.bind (file_attrs example_dated) attr_mtime = Some 5000
   \<and> createTar [example_dated] None 0 = createTar [example_dated] None 1700000000000
   \<and> createTar [example_dated] None 0 \<noteq> None"
proof -
  have m: "Option.bind (file_attrs example_dated) attr_mtime = Some 5000"
    by (simp add: example_dated_def)
  then have h: "\<forall>f \<in> set [example_dated]. Option.bind (file_attrs f) attr_mtime \<noteq> None
                              \<or> Option.bind None attr_mtime \<noteq> None"
    by simp
  from createTar_deterministic[OF h, of 0 1700000000000] m show ?thesis by blast
qed

subsection \<open>The checksum\<close>

lemma sum_bytes_le: "sum_list (map of_char (xs :: bytes)) \<le> (255 :: nat) * length xs"
proof (induction xs)
  case Nil
  show ?case by simp
next
  case (Cons c cs)
  have "(of_char c :: nat) \<le> 255" using nat_of_char_less_256[of c] by linarith
  then show ?case using Cons by simp
qed

lemma store_same_field:
  assumes "j + length bs \<le> length H" "field H j (length bs) = bs"
  shows "take j H @ bs @ drop (j + length bs) H = H"
proof -
  have "take (length bs) (drop j H) @ drop (length bs) (drop j H) = drop j H"
    by (rule append_take_drop_id)
  then have "bs @ drop (length bs) (drop j H) = drop j H"
    using assms(2) by (simp only: field_def)
  then have "bs @ drop (j + length bs) H = drop j H"
    by (simp only: drop_drop add.commute)
  then have "take j H @ bs @ drop (j + length bs) H = take j H @ drop j H"
    by (simp only:)
  then show ?thesis by (simp only: append_take_drop_id)
qed

lemma field_header_blank:
  "field (header_blank opts_attrs now file) 148 8 = fieldz 8 ''        ''"
  unfolding header_blank_def
  by (simp add: field_store_same split del: if_split cong: if_cong)

lemma header_blank_spaces:
  "take 148 (header_blank opts_attrs now file) @ replicate 8 CHR '' ''
     @ drop 156 (header_blank opts_attrs now file) = header_blank opts_attrs now file"
proof -
  have sp: "fieldz 8 ''        '' = replicate 8 CHR '' ''"
    by (simp add: fieldz_short utf8_ascii numeral_eq_Suc)
  have f: "field (header_blank opts_attrs now file) 148 (length (replicate 8 CHR '' '')) = replicate 8 CHR '' ''"
    using field_header_blank unfolding sp by simp
  show ?thesis
    using store_same_field[OF _ f] by simp
qed

lemma header_of_blanked:
  "take 148 (header_of opts_attrs now file) @ replicate 8 CHR '' ''
     @ drop 156 (header_of opts_attrs now file) = header_blank opts_attrs now file"
proof -
  let ?B = "header_blank opts_attrs now file"
  let ?X = "fieldz 8 (toString8 (int (sum_list (map of_char ?B))))"
  have "header_of opts_attrs now file = take 148 ?B @ ?X @ drop 156 ?B"
    by (simp add: header_of_def store_in_range)
  then have "take 148 (header_of opts_attrs now file) = take 148 ?B"
    "drop 156 (header_of opts_attrs now file) = drop 156 ?B"
    by simp_all
  then show ?thesis by (simp only: header_blank_spaces)
qed

lemma checksum_field_value:
  "field_number (header_of opts_attrs now file) 148 8 =
     Some (int (sum_list (map of_char (header_blank opts_attrs now file))))"
proof -
  let ?chk = "sum_list (map of_char (header_blank opts_attrs now file)) :: nat"
  have "?chk \<le> 255 * 512" using sum_bytes_le[of "header_blank opts_attrs now file"] by simp
  then have "?chk < 8 ^ 8" by simp
  then have l: "length (digits8 ?chk) \<le> 8" by (rule length_digits8) simp
  have "parseInt (concat (map fromCodePoint (fieldz 8 (leftPad (digits8 ?chk) 0)))) 8 = Some (int ?chk)"
    by (rule parse_octal_field[OF l]) simp
  then show ?thesis
    by (simp add: field_number_def field_header_of toString8_def leftPad_def)
qed

text \<open>
  Claim C4. In the buffer \<^verbatim>\<open>createTar\<close> returns, the header of entry \<open>i\<close> starts after the
  blocks of the entries before it; the eight bytes at offset 148 of that header, read as an
  octal number the way \<^verbatim>\<open>_readNumber\<close> reads the size, are the sum of the 512 bytes of
  the header with those eight bytes replaced by spaces.
\<close>

theorem checksum_valid:
  assumes i: "i < length files"
  shows "\<exists>buf header.
           createTar files opts_attrs now = Some buf
           \<and> Uint8Array buf (int (tarDataSize (take i files))) (Some 512) = Some header
           \<and> readNumber buf (int (tarDataSize (take i files)) + 148) 8 =
               Some (Some (int (sum_list (map of_char
                  (take 148 header @ replicate 8 CHR '' '' @ drop 156 header)))))"
proof -
  let ?eb = "entry_block opts_attrs now"
  let ?pre = "concat (map ?eb (take i files))"
  let ?H = "header_of opts_attrs now (files ! i)"
  define tail where "tail =
     (case file_data (files ! i) of None \<Rightarrow> []
      | Some d \<Rightarrow> d @ replicate (padded (length d) - length d) CHR 0x00)
     @ concat (map ?eb (drop (Suc i) files))
     @ replicate (bufSize files - tarDataSize files) CHR 0x00"
  have "files = take i files @ files ! i # drop (Suc i) files"
    using i by (rule id_take_nth_drop)
  then have "concat (map ?eb files) = ?pre @ ?eb (files ! i) @ concat (map ?eb (drop (Suc i) files))"
    by (metis concat.simps(2) concat_append list.simps(9) map_append)
  then have c: "createTar files opts_attrs now = Some (?pre @ ?H @ tail)"
    unfolding createTar_blocks by (simp add: entry_block_def tail_def)
  have lp: "int (tarDataSize (take i files)) = int (length ?pre)"
    by (simp add: length_blocks)
  have v: "Uint8Array (?pre @ ?H @ tail) (int (length ?pre)) (Some 512) = Some ?H"
    by (rule header_view) simp
  have "readNumber (?pre @ ?H @ tail) (int (length ?pre) + 148) 8 = Some (field_number ?H 148 8)"
    by (simp add: readNumber_inside field_number_def)
  then have r: "readNumber (?pre @ ?H @ tail) (int (length ?pre) + 148) 8 =
      Some (Some (int (sum_list (map of_char (take 148 ?H @ replicate 8 CHR '' '' @ drop 156 ?H)))))"
    unfolding checksum_field_value header_of_blanked .
  show ?thesis
    unfolding lp using c v r by blast
qed

theorem checksum_valid_witness:
  "(0 :: nat) < length [example_file]
   \<and> (\<exists>buf header.
         createTar [example_file] None 0 = Some buf
         \<and> Uint8Array buf (int (tarDataSize (take 0 [example_file]))) (Some 512) = Some header
         \<and> readNumber buf (int (tarDataSize (take 0 [example_file])) + 148) 8 =
             Some (Some (int (sum_list (map of_char
                (take 148 header @ replicate 8 CHR '' '' @ drop 156 header))))))"
proof -
  have i: "(0 :: nat) < length [example_file]" by simp
  from checksum_valid[OF i, of None 0] i show ?thesis by blast
qed

subsection \<open>Block alignment\<close>

lemma createTar_file_offset:
  assumes "createTar_file opts_attrs now wbuffer woffset file = Some (wbuffer', woffset')"
  shows "woffset' = woffset + (512 + padded (file_size file))"
  using assms unfolding createTar_file_def
  by (auto simp: file_size_def padded_def split: Option.bind_splits option.splits)

lemma tarDataSize_take_le: "tarDataSize (take i fs) \<le> tarDataSize fs"
proof -
  have "tarDataSize fs = tarDataSize (take i fs) + tarDataSize (drop i fs)"
    unfolding tarDataSize_append[symmetric] by simp
  then show ?thesis by simp
qed

lemma tarDataSize_take_Suc:
  "i < length fs \<Longrightarrow>
   tarDataSize (take (Suc i) fs) = tarDataSize (take i fs) + (512 + padded (file_size (fs ! i)))"
  by (simp add: take_Suc_conv_app_nth tarDataSize_append tarDataSize_Cons)

lemma write_header_blank:
  "write_header opts_attrs now (replicate 512 CHR 0x00) 0 file = Some (header_of opts_attrs now file)"
  using write_header_inside[of _ _ "[]" "[]"] by simp

lemma seek_written:
  "512 + 512 * (sz div 512) + (if sz mod 512 \<noteq> 0 then 512 else 0) = 512 + padded sz"
  by (simp add: padded_def)

text \<open>
  Claim C6, as amended. When a pass through the body of the decoder's loop at \<open>offset\<close>
  emits an entry whose size is an integer \<open>s\<close> that is not negative, the cursor goes to
  \<open>offset + 512 + 512 * (s div 512) + (512 if s mod 512 \<noteq> 0)\<close>, and this is where the loop
  reads the next header: it ends if fewer than 513 bytes are left there, and else goes
  through the body at that offset. The encoder writes the entry after one of size \<open>n\<close> at
  its write offset plus \<open>512 + 512 * (n div 512) + (512 if n mod 512 \<noteq> 0)\<close>; in the buffer
  \<^verbatim>\<open>createTar\<close> returns, which it always does, the write offset before entry \<open>i\<close> is the sum
  of these steps over the entries before it, a multiple of 512, the 512 bytes there are
  the header of entry \<open>i\<close>, and its payload follows them.
\<close>

theorem seek_block_aligned:
  "(0 \<le> offset \<and> offset < int (length buffer) - 512
      \<and> parseTar_body buffer opts offset nxt glob files = Some (Continue off' n' g' (files @ [m]))
      \<and> item_size m = Some s \<and> 0 \<le> s
    \<longrightarrow> off' = Some (offset + (512 + 512 * (s div 512) + (if s mod 512 \<noteq> 0 then 512 else 0)))
       \<and> parseTar_loop buffer opts (Some offset) nxt glob files =
           (if offset + (512 + 512 * (s div 512) + (if s mod 512 \<noteq> 0 then 512 else 0))
                 < int (length buffer) - 512
            then (case parseTar_body buffer opts
                         (offset + (512 + 512 * (s div 512) + (if s mod 512 \<noteq> 0 then 512 else 0)))
                         n' g' (files @ [m]) of
                    None \<Rightarrow> Some None
                  | Some (Break fs) \<Rightarrow> Some (Some fs)
                  | Some (Continue a b c d) \<Rightarrow> parseTar_loop buffer opts a b c d)
            else Some (Some (files @ [m]))))
   \<and> createTar_loop opts_attrs now wbuffer woffset (wfile # rest) =
       Option.bind (createTar_file opts_attrs now wbuffer woffset wfile)
         (\<lambda>written. createTar_loop opts_attrs now (fst written)
            (woffset + (512 + 512 * (file_size wfile div 512)
                        + (if file_size wfile mod 512 \<noteq> 0 then 512 else 0))) rest)
   \<and> (\<exists>out. createTar wfiles opts_attrs now = Some out
        \<and> (\<forall>i < length wfiles.
              map_option snd (createTar_loop opts_attrs now (replicate (bufSize wfiles) CHR 0x00) 0
                                (take i wfiles)) = Some (tarDataSize (take i wfiles))
              \<and> 512 dvd tarDataSize (take i wfiles)
              \<and> tarDataSize (take (Suc i) wfiles) =
                  tarDataSize (take i wfiles)
                  + (512 + 512 * (file_size (wfiles ! i) div 512)
                     + (if file_size (wfiles ! i) mod 512 \<noteq> 0 then 512 else 0))
              \<and> write_header opts_attrs now (replicate 512 CHR 0x00) 0 (wfiles ! i) =
                  Some (take 512 (drop (tarDataSize (take i wfiles)) out))
              \<and> (\<forall>d. file_data (wfiles ! i) = Some d \<longrightarrow>
                    take (length d) (drop (tarDataSize (take i wfiles) + 512) out) = d)))"
proof (intro conjI)
  show "0 \<le> offset \<and> offset < int (length buffer) - 512
      \<and> parseTar_body buffer opts offset nxt glob files = Some (Continue off' n' g' (files @ [m]))
      \<and> item_size m = Some s \<and> 0 \<le> s
    \<longrightarrow> off' = Some (offset + (512 + 512 * (s div 512) + (if s mod 512 \<noteq> 0 then 512 else 0)))
       \<and> parseTar_loop buffer opts (Some offset) nxt glob files =
           (if offset + (512 + 512 * (s div 512) + (if s mod 512 \<noteq> 0 then 512 else 0))
                 < int (length buffer) - 512
            then (case parseTar_body buffer opts
                         (offset + (512 + 512 * (s div 512) + (if s mod 512 \<noteq> 0 then 512 else 0)))
                         n' g' (files @ [m]) of
                    None \<Rightarrow> Some None
                  | Some (Break fs) \<Rightarrow> Some (Some fs)
                  | Some (Continue a b c d) \<Rightarrow> parseTar_loop buffer opts a b c d)
            else Some (Some (files @ [m])))"
  proof (intro impI)
    assume a: "0 \<le> offset \<and> offset < int (length buffer) - 512
      \<and> parseTar_body buffer opts offset nxt glob files = Some (Continue off' n' g' (files @ [m]))
      \<and> item_size m = Some s \<and> 0 \<le> s"
    then have range: "0 \<le> offset" "offset < int (length buffer) - 512"
      and run: "parseTar_body buffer opts offset nxt glob files = Some (Continue off' n' g' (files @ [m]))"
      and s: "item_size m = Some s" "0 \<le> s"
      by simp_all
    define nxt_off where
      "nxt_off = offset + (512 + 512 * (s div 512) + (if s mod 512 \<noteq> 0 then 512 else 0))"
    from body_Continue[OF range run] obtain sz where
      "off' = plus_number (Some offset) (seek_of sz)" "item_size m = sz" by auto
    then have off: "off' = Some nxt_off"
      using s(1) seek_of_nonneg[OF s(2)] by (simp add: plus_number_def nxt_off_def)
    have "parseTar_loop buffer opts (Some offset) nxt glob files =
          parseTar_loop buffer opts (Some nxt_off) n' g' (files @ [m])"
      using parseTar_loop_step[OF range(2) run] unfolding off .
    also have "\<dots> =
           (if nxt_off < int (length buffer) - 512
            then (case parseTar_body buffer opts nxt_off n' g' (files @ [m]) of
                    None \<Rightarrow> Some None
                  | Some (Break fs) \<Rightarrow> Some (Some fs)
                  | Some (Continue a b c d) \<Rightarrow> parseTar_loop buffer opts a b c d)
            else Some (Some (files @ [m])))"
      by (subst parseTar_loop.simps) simp
    finally show "off' = Some (offset + (512 + 512 * (s div 512) + (if s mod 512 \<noteq> 0 then 512 else 0)))
       \<and> parseTar_loop buffer opts (Some offset) nxt glob files =
           (if offset + (512 + 512 * (s div 512) + (if s mod 512 \<noteq> 0 then 512 else 0))
                 < int (length buffer) - 512
            then (case parseTar_body buffer opts
                         (offset + (512 + 512 * (s div 512) + (if s mod 512 \<noteq> 0 then 512 else 0)))
                         n' g' (files @ [m]) of
                    None \<Rightarrow> Some None
                  | Some (Break fs) \<Rightarrow> Some (Some fs)
                  | Some (Continue a b c d) \<Rightarrow> parseTar_loop buffer opts a b c d)
            else Some (Some (files @ [m])))"
      using off unfolding nxt_off_def by (intro conjI)
  qed
next
  show "createTar_loop opts_attrs now wbuffer woffset (wfile # rest) =
       Option.bind (createTar_file opts_attrs now wbuffer woffset wfile)
         (\<lambda>written. createTar_loop opts_attrs now (fst written)
            (woffset + (512 + 512 * (file_size wfile div 512)
                        + (if file_size wfile mod 512 \<noteq> 0 then 512 else 0))) rest)"
  proof (cases "createTar_file opts_attrs now wbuffer woffset wfile")
    case None
    then show ?thesis by simp
  next
    case (Some written)
    obtain b o' where w: "written = (b, o')" by (cases written)
    have "o' = woffset + (512 + padded (file_size wfile))"
      using Some unfolding w by (rule createTar_file_offset)
    then show ?thesis
      unfolding seek_written using Some w by simp
  qed
next
  let ?eb = "entry_block opts_attrs now"
  let ?out = "concat (map ?eb wfiles) @ replicate (bufSize wfiles - tarDataSize wfiles) CHR 0x00"
  have c: "createTar wfiles opts_attrs now = Some ?out" by (rule createTar_blocks)
  have each: "map_option snd (createTar_loop opts_attrs now (replicate (bufSize wfiles) CHR 0x00) 0
                                (take i wfiles)) = Some (tarDataSize (take i wfiles))
              \<and> 512 dvd tarDataSize (take i wfiles)
              \<and> tarDataSize (take (Suc i) wfiles) =
                  tarDataSize (take i wfiles)
                  + (512 + 512 * (file_size (wfiles ! i) div 512)
                     + (if file_size (wfiles ! i) mod 512 \<noteq> 0 then 512 else 0))
              \<and> write_header opts_attrs now (replicate 512 CHR 0x00) 0 (wfiles ! i) =
                  Some (take 512 (drop (tarDataSize (take i wfiles)) ?out))
              \<and> (\<forall>d. file_data (wfiles ! i) = Some d \<longrightarrow>
                    take (length d) (drop (tarDataSize (take i wfiles) + 512) ?out) = d)"
    if i: "i < length wfiles" for i
  proof -
    let ?pre = "concat (map ?eb (take i wfiles))"
    let ?H = "header_of opts_attrs now (wfiles ! i)"
    define payload where "payload =
       (case file_data (wfiles ! i) of None \<Rightarrow> []
        | Some d \<Rightarrow> d @ replicate (padded (length d) - length d) CHR 0x00)"
    define tail where "tail = payload
       @ concat (map ?eb (drop (Suc i) wfiles))
       @ replicate (bufSize wfiles - tarDataSize wfiles) CHR 0x00"
    have "wfiles = take i wfiles @ wfiles ! i # drop (Suc i) wfiles"
      using i by (rule id_take_nth_drop)
    then have "concat (map ?eb wfiles) = ?pre @ ?eb (wfiles ! i) @ concat (map ?eb (drop (Suc i) wfiles))"
      by (metis concat.simps(2) concat_append list.simps(9) map_append)
    then have out: "?out = ?pre @ ?H @ tail"
      by (simp add: entry_block_def tail_def payload_def)
    have lp: "length ?pre = tarDataSize (take i wfiles)" by (rule length_blocks)
    have le: "tarDataSize (take i wfiles) \<le> bufSize wfiles"
      using tarDataSize_take_le[of i wfiles] tarDataSize_le_bufSize[of wfiles] by linarith
    have 1: "map_option snd (createTar_loop opts_attrs now (replicate (bufSize wfiles) CHR 0x00) 0
                                (take i wfiles)) = Some (tarDataSize (take i wfiles))"
      using createTar_loop_blocks[OF le, of opts_attrs now "[]"] by simp
    have 2: "512 dvd tarDataSize (take i wfiles)" by (rule tarDataSize_dvd)
    have 3: "tarDataSize (take (Suc i) wfiles) =
                  tarDataSize (take i wfiles)
                  + (512 + 512 * (file_size (wfiles ! i) div 512)
                     + (if file_size (wfiles ! i) mod 512 \<noteq> 0 then 512 else 0))"
      unfolding seek_written using i by (rule tarDataSize_take_Suc)
    have "take 512 (drop (length ?pre) (?pre @ ?H @ tail)) = ?H" by simp
    then have 4: "write_header opts_attrs now (replicate 512 CHR 0x00) 0 (wfiles ! i) =
                  Some (take 512 (drop (tarDataSize (take i wfiles)) ?out))"
      unfolding out lp write_header_blank by simp
    have 5: "take (length d) (drop (tarDataSize (take i wfiles) + 512) ?out) = d"
      if d: "file_data (wfiles ! i) = Some d" for d
    proof -
      have "drop (length ?pre + 512) (?pre @ ?H @ tail) = tail" by simp
      moreover have "take (length d) tail = d" by (simp add: tail_def payload_def d)
      ultimately show ?thesis unfolding out lp by simp
    qed
    show ?thesis using 1 2 3 4 5 by blast
  qed
  have all: "\<forall>i < length wfiles.
              map_option snd (createTar_loop opts_attrs now (replicate (bufSize wfiles) CHR 0x00) 0
                                (take i wfiles)) = Some (tarDataSize (take i wfiles))
              \<and> 512 dvd tarDataSize (take i wfiles)
              \<and> tarDataSize (take (Suc i) wfiles) =
                  tarDataSize (take i wfiles)
                  + (512 + 512 * (file_size (wfiles ! i) div 512)
                     + (if file_size (wfiles ! i) mod 512 \<noteq> 0 then 512 else 0))
              \<and> write_header opts_attrs now (replicate 512 CHR 0x00) 0 (wfiles ! i) =
                  Some (take 512 (drop (tarDataSize (take i wfiles)) ?out))
              \<and> (\<forall>d. file_data (wfiles ! i) = Some d \<longrightarrow>
                    take (length d) (drop (tarDataSize (take i wfiles) + 512) ?out) = d)"
    by (intro allI impI) (rule each)
  show "\<exists>out. createTar wfiles opts_attrs now = Some out
        \<and> (\<forall>i < length wfiles.
              map_option snd (createTar_loop opts_attrs now (replicate (bufSize wfiles) CHR 0x00) 0
                                (take i wfiles)) = Some (tarDataSize (take i wfiles))
              \<and> 512 dvd tarDataSize (take i wfiles)
              \<and> tarDataSize (take (Suc i) wfiles) =
                  tarDataSize (take i wfiles)
                  + (512 + 512 * (file_size (wfiles ! i) div 512)
                     + (if file_size (wfiles ! i) mod 512 \<noteq> 0 then 512 else 0))
              \<and> write_header opts_attrs now (replicate 512 CHR 0x00) 0 (wfiles ! i) =
                  Some (take 512 (drop (tarDataSize (take i wfiles)) out))
              \<and> (\<forall>d. file_data (wfiles ! i) = Some d \<longrightarrow>
                    take (length d) (drop (tarDataSize (take i wfiles) + 512) out) = d))"
    by (rule exI[of _ ?out], rule conjI[OF c all])
qed

theorem seek_block_aligned_witness:
  "(\<exists>off' n' g' m.
      (0 :: int) \<le> 0 \<and> 0 < int (length example_entry) - 512
      \<and> parseTar_body example_entry no_opts 0 None None [] = Some (Continue off' n' g' ([] @ [m]))
      \<and> item_size m = Some 3 \<and> (0 :: int) \<le> 3 \<and> off' = Some 1024
      \<and> parseTar_loop example_entry no_opts (Some 0) None None [] = Some (Some ([] @ [m])))
   \<and> (\<exists>out. createTar [example_file, example_dir] None 0 = Some out
        \<and> tarDataSize (take 1 [example_file, example_dir]) = 1024 \<and> (512 :: nat) dvd 1024
        \<and> write_header None 0 (replicate 512 CHR 0x00) 0 example_dir = Some (take 512 (drop 1024 out))
        \<and> take 3 (drop 512 out) = ''abc'')"
proof -
  obtain M where run: "parseTar_body example_entry no_opts 0 None None [] =
      Some (Continue (Some 1024) None None ([] @ [M]))" and sz: "item_size M = Some 3"
    using example_entry_body[of None None "[]"] by (simp add: make_meta_def)
  have r: "(0 :: int) \<le> 0 \<and> 0 < int (length example_entry) - 512
      \<and> parseTar_body example_entry no_opts 0 None None [] = Some (Continue (Some 1024) None None ([] @ [M]))
      \<and> item_size M = Some 3 \<and> (0 :: int) \<le> 3"
    using run sz by (simp add: example_entry_length)
  note inst = seek_block_aligned[where offset = 0 and buffer = example_entry and opts = no_opts
      and nxt = None and glob = None and files = "[]" and off' = "Some 1024" and n' = None
      and g' = None and m = M and s = 3 and wfiles = "[example_file, example_dir]"
      and opts_attrs = None and now = 0]
  have "parseTar_loop example_entry no_opts (Some 0) None None [] = Some (Some ([] @ [M]))"
    using inst[THEN conjunct1] r by (simp add: example_entry_length)
  then have 1: "\<exists>off' n' g' m.
      (0 :: int) \<le> 0 \<and> 0 < int (length example_entry) - 512
      \<and> parseTar_body example_entry no_opts 0 None None [] = Some (Continue off' n' g' ([] @ [m]))
      \<and> item_size m = Some 3 \<and> (0 :: int) \<le> 3 \<and> off' = Some 1024
      \<and> parseTar_loop example_entry no_opts (Some 0) None None [] = Some (Some ([] @ [m]))"
    using r by blast
  obtain out where c: "createTar [example_file, example_dir] None 0 = Some out"
    and each: "\<And>i. i < length [example_file, example_dir] \<Longrightarrow>
        512 dvd tarDataSize (take i [example_file, example_dir])
        \<and> write_header None 0 (replicate 512 CHR 0x00) 0 ([example_file, example_dir] ! i) =
             Some (take 512 (drop (tarDataSize (take i [example_file, example_dir])) out))
        \<and> (\<forall>d. file_data ([example_file, example_dir] ! i) = Some d \<longrightarrow>
              take (length d) (drop (tarDataSize (take i [example_file, example_dir]) + 512) out) = d)"
    using inst[THEN conjunct2, THEN conjunct2] by blast
  have t: "tarDataSize (take 1 [example_file, example_dir]) = 1024"
    by (simp add: size_example_file)
  have h: "(512 :: nat) dvd 1024
      \<and> write_header None 0 (replicate 512 CHR 0x00) 0 example_dir = Some (take 512 (drop 1024 out))"
    using each[of 1] by (simp add: size_example_file)
  have "file_data example_file = Some ''abc''" by (simp add: example_file_def)
  then have p: "take 3 (drop 512 out) = ''abc''"
    using each[of 0] by (simp add: numeral_3_eq_3)
  have 2: "\<exists>out. createTar [example_file, example_dir] None 0 = Some out
        \<and> tarDataSize (take 1 [example_file, example_dir]) = 1024 \<and> (512 :: nat) dvd 1024
        \<and> write_header None 0 (replicate 512 CHR 0x00) 0 example_dir = Some (take 512 (drop 1024 out))
        \<and> take 3 (drop 512 out) = ''abc''"
    using c t h p by blast
  show ?thesis using 1 2 by (rule conjI)
qed

text \<open>
  Claim C6 as stated fails. The size field of the first header of \<open>example_negative\<close>
  reads \<open>-1\<close>. With \<^verbatim>\<open>metaOnly\<close> the entry \<^verbatim>\<open>R\<close> is emitted with the size \<open>-1\<close>, for which
  the formula of the claim gives 512; but \<^verbatim>\<open>Math.trunc\<close> and \<^verbatim>\<open>%\<close> round towards zero, the
  cursor moves by 1024, and the header \<^verbatim>\<open>S\<close> at offset 512 is never read: the entries
  returned are \<^verbatim>\<open>R\<close> and \<^verbatim>\<open>T\<close>.
\<close>

theorem seek_negative_size_counterexample:
  "map_option (map_option (map item_name)) (parseTar example_negative only_meta)
     = Some (Some [''R'', ''T''])
   \<and> map_option (map_option (map item_size)) (parseTar example_negative only_meta)
     = Some (Some [Some (- 1), Some 0])
   \<and> (0 :: int) + (512 + 512 * ((- 1) div 512) + (if (- 1 :: int) mod 512 \<noteq> 0 then 512 else 0)) = 512
   \<and> readString example_negative 512 (Some 100) = Some ''S''"
proof -
  let ?hr = "example_header ''R'' ''-0000000001'' ''0''"
  let ?hs = "example_header ''S'' ''00000000000'' ''0''"
  let ?ht = "example_header ''T'' ''00000000000'' ''0''"
  let ?end = "replicate 1024 CHR 0x00"
  let ?mr = "make_meta (override_name None ''R'') ''file'' (Some (- 1)) None None ''0000664''
               (Some 1750) (Some 1750) (Some 0) (Str []) (Str [])"
  let ?mt = "make_meta (override_name None ''T'') ''file'' (Some 0) None None ''0000664''
               (Some 1750) (Some 1750) (Some 0) (Str []) (Str [])"
  note len = length_example_negative
  have b1: "example_negative = [] @ ?hr @ (?hs @ ?ht @ ?end)"
    and b2: "example_negative = ?hr @ ?hs @ (?ht @ ?end)"
    and b3: "example_negative = (?hr @ ?hs) @ ?ht @ ?end"
    and b4: "example_negative = (?hr @ ?hs @ ?ht) @ ?end"
    by (simp_all add: example_negative_def)
  have o: "0 = int (length ([] :: bytes))" "512 = int (length ?hr)" "1024 = int (length (?hr @ ?hs))"
    "1536 = int (length (?hr @ ?hs @ ?ht))"
    by (simp_all add: length_example_header)
  have r1: "parseTar_body example_negative only_meta 0 None None [] =
      Some (Continue (Some 1024) None None ([] @ [?mr]))"
    by (subst pass_meta[OF _ _ _ _ _ b1 o(1) negative_values[symmetric]])
       (simp_all add: plain_def seek_negative plus_number_def)
  have r2: "parseTar_body example_negative only_meta 1024 None None [?mr] =
      Some (Continue (Some 1536) None None ([?mr] @ [?mt]))"
    by (subst pass_meta[OF _ _ _ _ _ b3 o(3) zero_values[symmetric]])
       (simp_all add: plain_def seek_of_nonneg plus_number_def)
  have r3: "parseTar_body example_negative only_meta 1536 None None [?mr, ?mt] = Some (Break [?mr, ?mt])"
    unfolding b4 o(4) by (rule parseTar_body_end) simp_all
  have "parseTar example_negative only_meta =
        parseTar_loop example_negative only_meta (Some 1024) None None [?mr]"
    unfolding parseTar_def using parseTar_loop_step[OF _ r1] by (simp add: len)
  also have "\<dots> = parseTar_loop example_negative only_meta (Some 1536) None None [?mr, ?mt]"
    using parseTar_loop_step[OF _ r2] by (simp add: len)
  also have "\<dots> = Some (Some [?mr, ?mt])"
    by (rule parseTar_loop_break[OF _ r3]) (simp add: len)
  finally have res: "parseTar example_negative only_meta = Some (Some [?mr, ?mt])" .
  have ls: "length ?hs = 512" by (simp add: length_example_header)
  have "readString (?hr @ ?hs @ (?ht @ ?end)) (int (length ?hr)) (Some 100) =
        Some (field_string ?hs 0 100)"
    by (rule header_reads_block(1)[OF ls])
  then have rd: "readString example_negative 512 (Some 100) = Some ''S''"
    unfolding b2[symmetric] o(2)[symmetric]
    by (simp add: example_header_fields(1) plain_def)
  show ?thesis
    unfolding res using rd by (simp add: make_meta_def override_name_def)
qed

end
